theory Spec2Isabelle
  imports Main "HOL-Library.AList"
begin

section \<open>Text: Python strings as lists of code points\<close>

text \<open>
  A Python \<^verbatim>\<open>str\<close> is a sequence of Unicode code points, and \<^verbatim>\<open>len\<close> counts code
  points. The heading pattern and the report template contain CJK characters, so a
  character is modelled by its code point and a string by the list of its code points.
\<close>

type_synonym codepoint = nat
type_synonym ustring = "codepoint list"

definition of_ascii :: "string \<Rightarrow> ustring" where
  "of_ascii s = map of_char s"

definition newline :: codepoint where
  "newline = 0x0A"

text \<open>
  Whitespace as \<^verbatim>\<open>str.strip()\<close>, \<^verbatim>\<open>str.isspace()\<close> and the class \<^verbatim>\<open>\s\<close> of a
  \<^verbatim>\<open>str\<close> pattern understand it (CPython's \<^verbatim>\<open>Py_UNICODE_ISSPACE\<close>): U+0009..U+000D,
  U+001C..U+0020, U+0085, U+00A0, U+1680, U+2000..U+200A, U+2028, U+2029, U+202F,
  U+205F and U+3000.
\<close>

definition is_space :: "codepoint \<Rightarrow> bool" where
  "is_space c \<longleftrightarrow>
     (0x09 \<le> c \<and> c \<le> 0x0D) \<or> (0x1C \<le> c \<and> c \<le> 0x20) \<or> c = 0x85 \<or> c = 0xA0 \<or>
     c = 0x1680 \<or> (0x2000 \<le> c \<and> c \<le> 0x200A) \<or> c = 0x2028 \<or> c = 0x2029 \<or>
     c = 0x202F \<or> c = 0x205F \<or> c = 0x3000"

text \<open>\<^verbatim>\<open>s.strip()\<close>: whitespace removed from both ends.\<close>

definition strip :: "ustring \<Rightarrow> ustring" where
  "strip s = rev (dropWhile is_space (rev (dropWhile is_space s)))"

text \<open>\<^verbatim>\<open>s[a:b]\<close> for \<open>0 \<le> a\<close> and \<open>0 \<le> b\<close>; empty when \<open>b \<le> a\<close>, cut at the end of \<open>s\<close>.\<close>

definition slice :: "ustring \<Rightarrow> nat \<Rightarrow> nat \<Rightarrow> ustring" where
  "slice s a b = take (b - a) (drop a s)"


section \<open>The heading pattern\<close>

text \<open>
  The pattern of \<^verbatim>\<open>split_into_chapters\<close> is
  \<^verbatim>\<open>(D[0-9N]+Z\s[^\n]+)\n\<close>
  where \<^verbatim>\<open>D\<close> is U+7B2C, \<^verbatim>\<open>Z\<close> is U+7AE0 and \<^verbatim>\<open>N\<close> stands for the fourteen CJK numeral
  characters U+96F6, U+4E00, U+4E8C, U+4E09, U+56DB, U+4E94, U+516D, U+4E03, U+516B,
  U+4E5D, U+5341, U+767E, U+5343, U+4E07. It is a sequence of items, each a character
  class taken once or, under \<^verbatim>\<open>+\<close>, one or more times.
\<close>

datatype item = One "codepoint \<Rightarrow> bool" | Many1 "codepoint \<Rightarrow> bool"

text \<open>
  A backtracking matcher in the priority order of \<^verbatim>\<open>re\<close>: \<^verbatim>\<open>+\<close> is greedy, it first
  tries to take one more character and gives a character back only when the rest of
  the pattern fails. The result is the number of characters of the match that begins
  at the head of the input, \<open>None\<close> when there is none.
\<close>

fun match_here :: "item list \<Rightarrow> ustring \<Rightarrow> nat option" where
  "match_here [] s = Some 0"
| "match_here (One p # r) [] = None"
| "match_here (One p # r) (c # s) =
     (if p c then map_option Suc (match_here r s) else None)"
| "match_here (Many1 p # r) [] = None"
| "match_here (Many1 p # r) (c # s) =
     (if p c then
        (case match_here (Many1 p # r) s of
           Some n \<Rightarrow> Some (Suc n)
         | None \<Rightarrow> map_option Suc (match_here r s))
      else None)"

definition is_numeral :: "codepoint \<Rightarrow> bool" where
  "is_numeral c \<longleftrightarrow>
     (0x30 \<le> c \<and> c \<le> 0x39) \<or>
     c \<in> {0x96F6, 0x4E00, 0x4E8C, 0x4E09, 0x56DB, 0x4E94, 0x516D, 0x4E03, 0x516B,
           0x4E5D, 0x5341, 0x767E, 0x5343, 0x4E07}"

text \<open>Group 1 of the pattern, and the whole pattern: the group and one newline.\<close>

definition heading_group :: "item list" where
  "heading_group =
     [One (\<lambda>c. c = 0x7B2C), Many1 is_numeral, One (\<lambda>c. c = 0x7AE0), One is_space,
      Many1 (\<lambda>c. c \<noteq> newline)]"

definition heading_pattern :: "item list" where
  "heading_pattern = heading_group @ [One (\<lambda>c. c = newline)]"

text \<open>
  A match object: \<^verbatim>\<open>match.start()\<close> and \<^verbatim>\<open>match.end()\<close>. Group 1 closes one
  character (the newline) before the end of the match.
\<close>

record rmatch =
  m_start :: nat
  m_end :: nat

definition group1 :: "ustring \<Rightarrow> rmatch \<Rightarrow> ustring" where
  "group1 doc m = slice doc (m_start m) (m_end m - 1)"

text \<open>
  \<^verbatim>\<open>pattern.finditer(content)\<close>: the non-overlapping matches from left to right. At
  each position the pattern is tried; after a match the scan goes on at its end,
  otherwise one character further.
\<close>

function finditer_from :: "nat \<Rightarrow> ustring \<Rightarrow> rmatch list" where
  "finditer_from pos [] = []"
| "finditer_from pos (c # s) =
     (case match_here heading_pattern (c # s) of
        Some n \<Rightarrow> \<lparr>m_start = pos, m_end = pos + n\<rparr> # finditer_from (pos + n) (drop n (c # s))
      | None \<Rightarrow> finditer_from (pos + 1) s)"
  by pat_completeness auto
termination
proof (relation "measure (\<lambda>(pos, s). length s)")
  show "wf (measure (\<lambda>(pos, s). length s))"
    by simp
next
  fix pos :: nat and c :: codepoint and s :: ustring and n :: nat
  assume "match_here heading_pattern (c # s) = Some n"
  then have "0 < n"
    by (auto simp: heading_pattern_def heading_group_def split: if_splits)
  then show "((pos + n, drop n (c # s)), (pos, c # s)) \<in> measure (\<lambda>(pos, s). length s)"
    by simp
next
  fix pos :: nat and c :: codepoint and s :: ustring
  show "((pos + 1, s), (pos, c # s)) \<in> measure (\<lambda>(pos, s). length s)"
    by simp
qed

definition finditer :: "ustring \<Rightarrow> rmatch list" where
  "finditer doc = finditer_from 0 doc"


section \<open>Chapter splitter\<close>

record chap =
  title :: ustring
  content :: ustring

text \<open>The title of the single chapter of a document without headings: U+5168 U+6587.\<close>

definition full_text_title :: ustring where
  "full_text_title = [0x5168, 0x6587]"

text \<open>
  One round of the loop \<^verbatim>\<open>for i, match in enumerate(matches)\<close>: the chapter of match
  \<open>i\<close>, whose content ends where match \<open>i + 1\<close> starts, or at the end of the document.
\<close>

definition chapter_at :: "ustring \<Rightarrow> rmatch list \<Rightarrow> nat \<Rightarrow> chap" where
  "chapter_at doc matches i =
     (let match = matches ! i;
          end_pos = (if i < length matches - 1 then m_start (matches ! (i + 1))
                     else length doc)
      in \<lparr>title = strip (group1 doc match),
          content = strip (slice doc (m_end match) end_pos)\<rparr>)"

text \<open>
  \<^verbatim>\<open>split_into_chapters\<close>. The indices \<open>i\<close> and \<open>i + 1\<close> are read only below
  \<open>length matches\<close>, and nothing else in the body raises on a string, so the
  \<^verbatim>\<open>except\<close> branch (which returns the empty list) is never taken. Log output is not
  modelled.
\<close>

definition split_into_chapters :: "ustring \<Rightarrow> chap list" where
  "split_into_chapters doc =
     (let matches = finditer doc
      in if matches = [] then [\<lparr>title = full_text_title, content = doc\<rparr>]
         else map (chapter_at doc matches) [0..<length matches])"

text \<open>
  The two documents of the repository's tests (\<^verbatim>\<open>test_analyzer.py\<close>): one heading line
  followed by two body lines, and two heading lines with one body line each. Every line
  is indented by eight spaces; the body lines contain U+7B2C, a CJK numeral and U+7AE0
  in a row, but no whitespace after them.
\<close>

definition doc_one_heading :: ustring where
  "doc_one_heading =
     [0xA, 0x20, 0x20, 0x20, 0x20, 0x20, 0x20, 0x20, 0x20,
      0x7B2C, 0x31, 0x7AE0, 0x20, 0x4E07, 0x836F, 0x8054, 0x76DF, 0x7684, 0x8BDE, 0x751F, 0xA,
      0x20, 0x20, 0x20, 0x20, 0x20, 0x20, 0x20, 0x20,
      0x8FD9, 0x662F, 0x7B2C, 0x4E00, 0x7AE0, 0x7684, 0x5185, 0x5BB9, 0x3002, 0xA,
      0x20, 0x20, 0x20, 0x20, 0x20, 0x20, 0x20, 0x20,
      0x8FD9, 0x662F, 0x7B2C, 0x4E8C, 0x7AE0, 0x7684, 0x5185, 0x5BB9, 0x3002, 0xA,
      0x20, 0x20, 0x20, 0x20, 0x20, 0x20, 0x20, 0x20]"

definition doc_two_headings :: ustring where
  "doc_two_headings =
     [0xA, 0x20, 0x20, 0x20, 0x20, 0x20, 0x20, 0x20, 0x20,
      0x7B2C, 0x31, 0x7AE0, 0x20, 0x4E07, 0x836F, 0x8054, 0x76DF, 0x7684, 0x8BDE, 0x751F, 0xA,
      0x20, 0x20, 0x20, 0x20, 0x20, 0x20, 0x20, 0x20,
      0x8FD9, 0x662F, 0x7B2C, 0x4E00, 0x7AE0, 0x7684, 0x5185, 0x5BB9, 0x3002, 0xA,
      0x20, 0x20, 0x20, 0x20, 0x20, 0x20, 0x20, 0x20,
      0x7B2C, 0x32, 0x7AE0, 0x20, 0x4E07, 0x836F, 0x8054, 0x76DF, 0x7684, 0x5D1B, 0x8D77, 0xA,
      0x20, 0x20, 0x20, 0x20, 0x20, 0x20, 0x20, 0x20,
      0x8FD9, 0x662F, 0x7B2C, 0x4E8C, 0x7AE0, 0x7684, 0x5185, 0x5BB9, 0x3002, 0xA,
      0x20, 0x20, 0x20, 0x20, 0x20, 0x20, 0x20, 0x20]"

text \<open>
  The strings that group 1 of the pattern matches in full: U+7B2C, a non-empty run of
  numeral characters, U+7AE0, one whitespace character and a non-empty rest without a
  newline.
\<close>

fun heading_text :: "ustring \<Rightarrow> bool" where
  "heading_text [] = False"
| "heading_text (c # s) =
     (c = 0x7B2C \<and> takeWhile is_numeral s \<noteq> [] \<and>
      (case dropWhile is_numeral s of
         z # w # ttl \<Rightarrow> z = 0x7AE0 \<and> is_space w \<and> ttl \<noteq> [] \<and> newline \<notin> set ttl
       | _ \<Rightarrow> False))"

text \<open>A short document with one chapter, and a last line of heading shape without a newline.\<close>

definition first_chapter_doc :: ustring where
  "first_chapter_doc = [0x7B2C, 0x31, 0x7AE0, 0x20, 0x61, 0x0A, 0x62, 0x0A]"

definition heading_shaped_line :: ustring where
  "heading_shaped_line = [0x7B2C, 0x32, 0x7AE0, 0x20, 0x63]"


section \<open>Character merger\<close>

text \<open>
  A raw character record is the dictionary the model returned for one character: keys
  to string values (the data model of the records; the merger applies \<^verbatim>\<open>len\<close> to the
  values). The keys the code reads are ASCII words.
\<close>

type_synonym raw_record = "ustring \<rightharpoonup> ustring"

definition key_name :: ustring where
  "key_name = of_ascii ''name''"

definition key_appearance :: ustring where
  "key_appearance = of_ascii ''appearance''"

definition key_personality :: ustring where
  "key_personality = of_ascii ''personality''"

definition key_relationships :: ustring where
  "key_relationships = of_ascii ''relationships''"

definition key_first_appearance :: ustring where
  "key_first_appearance = of_ascii ''first_appearance''"

definition key_significance :: ustring where
  "key_significance = of_ascii ''significance''"

definition key_appearances :: ustring where
  "key_appearances = of_ascii ''appearances''"

definition key_chapters :: ustring where
  "key_chapters = of_ascii ''chapters''"

text \<open>\<^verbatim>\<open>d.get(key, default)\<close>.\<close>

definition get_or :: "('k \<rightharpoonup> 'v) \<Rightarrow> 'k \<Rightarrow> 'v \<Rightarrow> 'v" where
  "get_or d k dflt = (case d k of Some v \<Rightarrow> v | None \<Rightarrow> dflt)"

text \<open>
  A merged record is the dictionary \<^verbatim>\<open>{**char, 'appearances': 1, 'chapters': [...]}\<close>:
  the string-valued entries copied from the raw record, a counter and a list. The
  literal always writes the keys \<^verbatim>\<open>appearances\<close> and \<^verbatim>\<open>chapters\<close> and thereby hides
  entries of the raw record under these two keys, so the two are components of their own
  and \<open>attrs\<close> holds the other keys.
\<close>

record merged_record =
  attrs :: "ustring \<rightharpoonup> ustring"
  appearances :: int
  chapters :: "ustring list"

text \<open>
  The result dictionary keeps insertion order: an association list with one pair per
  key. \<^verbatim>\<open>d[k] = v\<close> is \<^const>\<open>AList.update\<close>: a present key keeps its place, a new key
  goes to the end.
\<close>

type_synonym merged = "(ustring \<times> merged_record) list"

definition descriptive_fields :: "ustring list" where
  "descriptive_fields = [key_appearance, key_personality, key_relationships, key_significance]"

text \<open>
  One round of \<^verbatim>\<open>for field in [...]\<close>: the incoming value replaces the stored one when
  it is present, non-empty, and the stored one is absent or shorter.
\<close>

definition merge_field :: "raw_record \<Rightarrow> merged_record \<Rightarrow> ustring \<Rightarrow> merged_record" where
  "merge_field char entry field =
     (case char field of
        None \<Rightarrow> entry
      | Some v \<Rightarrow>
          if v \<noteq> [] \<and>
             (attrs entry field = None \<or> length v > length (get_or (attrs entry) field []))
          then entry\<lparr>attrs := (attrs entry)(field \<mapsto> v)\<rparr>
          else entry)"

text \<open>One round of \<^verbatim>\<open>for char in characters\<close>.\<close>

definition merge_record :: "merged \<Rightarrow> raw_record \<Rightarrow> merged" where
  "merge_record merged char =
     (case char key_name of
        None \<Rightarrow> merged
      | Some name \<Rightarrow>
          if name = [] then merged
          else
            (case map_of merged name of
               None \<Rightarrow>
                 AList.update name
                   \<lparr>attrs = char |` (- {key_appearances, key_chapters}),
                    appearances = 1,
                    chapters = [get_or char key_first_appearance []]\<rparr>
                   merged
             | Some entry \<Rightarrow>
                 AList.update name
                   (foldl (merge_field char)
                      (entry\<lparr>appearances := appearances entry + 1,
                             chapters := chapters entry @ [get_or char key_first_appearance []]\<rparr>)
                      descriptive_fields)
                   merged))"

definition merge_character_data :: "raw_record list list \<Rightarrow> merged" where
  "merge_character_data characters_list =
     foldl (\<lambda>merged characters. foldl merge_record merged characters) [] characters_list"

text \<open>
  For the statements: the name under which a record is merged, if any; the names of a
  list of records in order; and a list without its repeated elements, each kept at its
  first place.
\<close>

definition name_of :: "raw_record \<Rightarrow> ustring option" where
  "name_of char = (case char key_name of None \<Rightarrow> None | Some n \<Rightarrow> if n = [] then None else Some n)"

definition names_of :: "raw_record list \<Rightarrow> ustring list" where
  "names_of chars = List.map_filter name_of chars"

definition first_seen :: "'a list \<Rightarrow> 'a list" where
  "first_seen xs = rev (remdups (rev xs))"

text \<open>The value of a field as a string, empty when the key is absent.\<close>

definition field_value :: "raw_record \<Rightarrow> ustring \<Rightarrow> ustring" where
  "field_value char field = get_or char field []"

text \<open>
  The record a first occurrence stores, the record a later occurrence leaves behind, and
  the rule of the fields in the words of the specification: the incoming value wins when
  it is present, not empty and strictly longer than the stored one (an absent stored
  value counting as empty).
\<close>

definition seed_record :: "raw_record \<Rightarrow> merged_record" where
  "seed_record char =
     \<lparr>attrs = char |` (- {key_appearances, key_chapters}),
      appearances = 1,
      chapters = [get_or char key_first_appearance []]\<rparr>"

definition next_record :: "raw_record \<Rightarrow> merged_record \<Rightarrow> merged_record" where
  "next_record char entry =
     foldl (merge_field char)
       (entry\<lparr>appearances := appearances entry + 1,
              chapters := chapters entry @ [get_or char key_first_appearance []]\<rparr>)
       descriptive_fields"

definition wins :: "ustring option \<Rightarrow> ustring option \<Rightarrow> bool" where
  "wins incoming stored =
     (case incoming of
        None \<Rightarrow> False
      | Some v \<Rightarrow> v \<noteq> [] \<and> length v > length (case stored of None \<Rightarrow> [] | Some s \<Rightarrow> s))"

text \<open>
  Sample records. Three records named \<open>a\<close>: \<open>rec_short\<close> with appearance \<open>p\<close>,
  personality \<open>x\<close>, relationships \<open>rs\<close> and no significance; \<open>rec_long\<close> with a
  longer appearance \<open>qq\<close>, a longer personality \<open>yz\<close>, shorter relationships \<open>r\<close> and
  significance \<open>s\<close>; \<open>rec_tie\<close> with an appearance and a personality as long as those of
  \<open>rec_short\<close>, no relationships and an empty significance. Then a record with an empty
  name, and a record named \<open>b\<close>.
\<close>

definition rec_short :: raw_record where
  "rec_short =
     [key_name \<mapsto> [0x61], key_appearance \<mapsto> [0x70], key_personality \<mapsto> [0x78],
      key_relationships \<mapsto> [0x72, 0x73], key_first_appearance \<mapsto> [0x31]]"

definition rec_long :: raw_record where
  "rec_long =
     [key_name \<mapsto> [0x61], key_appearance \<mapsto> [0x71, 0x71], key_personality \<mapsto> [0x79, 0x7A],
      key_relationships \<mapsto> [0x72], key_first_appearance \<mapsto> [0x32],
      key_significance \<mapsto> [0x73]]"

definition rec_tie :: raw_record where
  "rec_tie =
     [key_name \<mapsto> [0x61], key_appearance \<mapsto> [0x71], key_personality \<mapsto> [0x77],
      key_significance \<mapsto> []]"

definition rec_nameless :: raw_record where
  "rec_nameless = [key_name \<mapsto> [], key_personality \<mapsto> [0x78]]"

definition rec_other :: raw_record where
  "rec_other = [key_name \<mapsto> [0x62]]"


section \<open>Report renderer\<close>

text \<open>\<^verbatim>\<open>str(n)\<close> for an integer: decimal digits, with a minus sign below zero.\<close>

fun str_nat :: "nat \<Rightarrow> ustring" where
  "str_nat n = (if n < 10 then [0x30 + n] else str_nat (n div 10) @ [0x30 + n mod 10])"

declare str_nat.simps [simp del]

definition str_int :: "int \<Rightarrow> ustring" where
  "str_int i = (if i < 0 then 0x2D # str_nat (nat (- i)) else str_nat (nat i))"

text \<open>\<^verbatim>\<open>sep.join(xs)\<close>.\<close>

fun join :: "ustring \<Rightarrow> ustring list \<Rightarrow> ustring" where
  "join sep [] = []"
| "join sep [x] = x"
| "join sep (x # y # ys) = x @ sep @ join sep (y # ys)"

text \<open>
  The literal text of the two templates, cut at the interpolated expressions: the report
  title and the statistics heading up to the label of the chapter count, the labels of
  the three other counts, the heading of the details, the labels of the seven lines of
  a character section, and the placeholder U+65E0 U+8BB0 U+5F55.
\<close>

definition report_head :: ustring where
  "report_head =
      [0x3D, 0x3D, 0x3D, 0x20, 0x5C0F, 0x8BF4, 0x89D2, 0x8272, 0x5206, 0x6790, 0x62A5,
       0x544A, 0x20, 0x3D, 0x3D, 0x3D, 0xA, 0xA, 0x3010, 0x7EDF, 0x8BA1, 0x4FE1, 0x606F,
       0x3011, 0xA, 0x603B, 0x7AE0, 0x8282, 0x6570, 0x3A, 0x20]"

definition label_succeeded :: ustring where
  "label_succeeded = [0xA, 0x6210, 0x529F, 0x5206, 0x6790, 0x3A, 0x20]"

definition label_failed :: ustring where
  "label_failed = [0xA, 0x5931, 0x8D25, 0x7AE0, 0x8282, 0x3A, 0x20]"

definition label_characters :: ustring where
  "label_characters = [0xA, 0x53D1, 0x73B0, 0x89D2, 0x8272, 0x3A, 0x20]"

definition details_head :: ustring where
  "details_head =
      [0xA, 0xA, 0x3010, 0x89D2, 0x8272, 0x8BE6, 0x7EC6, 0x4FE1, 0x606F, 0x3011, 0xA]"

definition label_name :: ustring where
  "label_name = [0xA, 0x25A0, 0x20, 0x89D2, 0x8272, 0x540D, 0x79F0, 0x3A, 0x20]"

definition label_appearances :: ustring where
  "label_appearances =
      [0xA, 0x20, 0x20, 0x20, 0x20, 0x25B8, 0x20, 0x51FA, 0x73B0, 0x6B21, 0x6570, 0x3A, 0x20]"

definition label_chapters :: ustring where
  "label_chapters =
      [0xA, 0x20, 0x20, 0x20, 0x20, 0x25B8, 0x20, 0x51FA, 0x73B0, 0x7AE0, 0x8282, 0x3A, 0x20]"

definition label_appearance :: ustring where
  "label_appearance =
      [0xA, 0x20, 0x20, 0x20, 0x20, 0x25B8, 0x20, 0x5916, 0x8C8C, 0x7279, 0x5F81, 0x3A, 0x20]"

definition label_personality :: ustring where
  "label_personality =
      [0xA, 0x20, 0x20, 0x20, 0x20, 0x25B8, 0x20, 0x6027, 0x683C, 0x7279, 0x70B9, 0x3A, 0x20]"

definition label_relationships :: ustring where
  "label_relationships =
      [0xA, 0x20, 0x20, 0x20, 0x20, 0x25B8, 0x20, 0x4EBA, 0x7269, 0x5173, 0x7CFB, 0x3A, 0x20]"

definition label_significance :: ustring where
  "label_significance =
      [0xA, 0x20, 0x20, 0x20, 0x20, 0x25B8, 0x20, 0x89D2, 0x8272, 0x91CD, 0x8981, 0x6027,
       0x3A, 0x20]"

definition no_record :: ustring where
  "no_record = [0x65E0, 0x8BB0, 0x5F55]"

text \<open>The rule after each character: sixty times U+2501 and a newline.\<close>

definition rule_line :: ustring where
  "rule_line = replicate 60 0x2501 @ [newline]"

text \<open>
  The f-string of the loop body. A merged record always carries its counter and its
  list, so \<^verbatim>\<open>data.get('appearances', 1)\<close> and \<^verbatim>\<open>data.get('chapters', [])\<close> read the two
  components; the four descriptive fields are read with the placeholder as default.
\<close>

definition character_block :: "ustring \<Rightarrow> merged_record \<Rightarrow> ustring" where
  "character_block name data =
     label_name @ name @
     label_appearances @ str_int (appearances data) @
     label_chapters @ join (of_ascii '', '') (chapters data) @
     label_appearance @ get_or (attrs data) key_appearance no_record @
     label_personality @ get_or (attrs data) key_personality no_record @
     label_relationships @ get_or (attrs data) key_relationships no_record @
     label_significance @ get_or (attrs data) key_significance no_record @
     [newline]"

text \<open>
  \<^verbatim>\<open>generate_final_report\<close>: the statistics, then
  \<^verbatim>\<open>for name, data in characters.items()\<close> with its two \<^verbatim>\<open>report += ...\<close>. Only the
  length of the chapter list is used.
\<close>

definition generate_final_report :: "'a list \<Rightarrow> merged \<Rightarrow> int \<Rightarrow> ustring" where
  "generate_final_report chs characters failed =
     foldl (\<lambda>report (name, data). (report @ character_block name data) @ rule_line)
       (report_head @ str_int (int (length chs)) @
        label_succeeded @ str_int (int (length chs) - failed) @
        label_failed @ str_int failed @
        label_characters @ str_int (int (length characters)) @
        details_head)
       characters"

text \<open>
  The layout in the words of the specification: a statistics block of four counts, and
  one section per character showing the name, the appearance count, the joined chapter
  list and the four descriptive texts.
\<close>

definition statistics_block :: "int \<Rightarrow> int \<Rightarrow> int \<Rightarrow> int \<Rightarrow> ustring" where
  "statistics_block n_chapters n_succeeded n_failed n_characters =
     report_head @ str_int n_chapters @ label_succeeded @ str_int n_succeeded @
     label_failed @ str_int n_failed @ label_characters @ str_int n_characters"

definition shown_field :: "merged_record \<Rightarrow> ustring \<Rightarrow> ustring" where
  "shown_field data field = (if field \<in> dom (attrs data) then the (attrs data field) else no_record)"

definition character_section :: "ustring \<Rightarrow> merged_record \<Rightarrow> ustring" where
  "character_section name data =
     label_name @ name @
     label_appearances @ str_int (appearances data) @
     label_chapters @ join [0x2C, 0x20] (chapters data) @
     label_appearance @ shown_field data key_appearance @
     label_personality @ shown_field data key_personality @
     label_relationships @ shown_field data key_relationships @
     label_significance @ shown_field data key_significance @
     [newline]"

text \<open>
  A sample: three chapters of which one failed, and two characters; \<open>a\<close> with a known
  appearance, twelve occurrences and two chapter entries, \<open>b\<close> with nothing but a name
  and one empty chapter entry. \<open>sample_report\<close> is the text the templates give for it.
\<close>

definition sample_entry_a :: merged_record where
  "sample_entry_a =
     \<lparr>attrs = [key_name \<mapsto> [0x61], key_appearance \<mapsto> [0x74]],
      appearances = 12, chapters = [[0x78], [0x79]]\<rparr>"

definition sample_entry_b :: merged_record where
  "sample_entry_b = \<lparr>attrs = [key_name \<mapsto> [0x62]], appearances = 1, chapters = [[]]\<rparr>"

definition sample_report :: ustring where
  "sample_report =
      [0x3D, 0x3D, 0x3D, 0x20, 0x5C0F, 0x8BF4, 0x89D2, 0x8272, 0x5206, 0x6790, 0x62A5,
       0x544A, 0x20, 0x3D, 0x3D, 0x3D, 0xA, 0xA, 0x3010, 0x7EDF, 0x8BA1, 0x4FE1, 0x606F,
       0x3011, 0xA, 0x603B, 0x7AE0, 0x8282, 0x6570, 0x3A, 0x20, 0x33, 0xA, 0x6210,
       0x529F, 0x5206, 0x6790, 0x3A, 0x20, 0x32, 0xA, 0x5931, 0x8D25, 0x7AE0, 0x8282,
       0x3A, 0x20, 0x31, 0xA, 0x53D1, 0x73B0, 0x89D2, 0x8272, 0x3A, 0x20, 0x32, 0xA, 0xA,
       0x3010, 0x89D2, 0x8272, 0x8BE6, 0x7EC6, 0x4FE1, 0x606F, 0x3011, 0xA, 0xA, 0x25A0,
       0x20, 0x89D2, 0x8272, 0x540D, 0x79F0, 0x3A, 0x20, 0x61, 0xA, 0x20, 0x20, 0x20,
       0x20, 0x25B8, 0x20, 0x51FA, 0x73B0, 0x6B21, 0x6570, 0x3A, 0x20, 0x31, 0x32, 0xA,
       0x20, 0x20, 0x20, 0x20, 0x25B8, 0x20, 0x51FA, 0x73B0, 0x7AE0, 0x8282, 0x3A, 0x20,
       0x78, 0x2C, 0x20, 0x79, 0xA, 0x20, 0x20, 0x20, 0x20, 0x25B8, 0x20, 0x5916, 0x8C8C,
       0x7279, 0x5F81, 0x3A, 0x20, 0x74, 0xA, 0x20, 0x20, 0x20, 0x20, 0x25B8, 0x20,
       0x6027, 0x683C, 0x7279, 0x70B9, 0x3A, 0x20, 0x65E0, 0x8BB0, 0x5F55, 0xA, 0x20,
       0x20, 0x20, 0x20, 0x25B8, 0x20, 0x4EBA, 0x7269, 0x5173, 0x7CFB, 0x3A, 0x20,
       0x65E0, 0x8BB0, 0x5F55, 0xA, 0x20, 0x20, 0x20, 0x20, 0x25B8, 0x20, 0x89D2, 0x8272,
       0x91CD, 0x8981, 0x6027, 0x3A, 0x20, 0x65E0, 0x8BB0, 0x5F55, 0xA, 0x2501, 0x2501,
       0x2501, 0x2501, 0x2501, 0x2501, 0x2501, 0x2501, 0x2501, 0x2501, 0x2501, 0x2501,
       0x2501, 0x2501, 0x2501, 0x2501, 0x2501, 0x2501, 0x2501, 0x2501, 0x2501, 0x2501,
       0x2501, 0x2501, 0x2501, 0x2501, 0x2501, 0x2501, 0x2501, 0x2501, 0x2501, 0x2501,
       0x2501, 0x2501, 0x2501, 0x2501, 0x2501, 0x2501, 0x2501, 0x2501, 0x2501, 0x2501,
       0x2501, 0x2501, 0x2501, 0x2501, 0x2501, 0x2501, 0x2501, 0x2501, 0x2501, 0x2501,
       0x2501, 0x2501, 0x2501, 0x2501, 0x2501, 0x2501, 0x2501, 0x2501, 0xA, 0xA, 0x25A0,
       0x20, 0x89D2, 0x8272, 0x540D, 0x79F0, 0x3A, 0x20, 0x62, 0xA, 0x20, 0x20, 0x20,
       0x20, 0x25B8, 0x20, 0x51FA, 0x73B0, 0x6B21, 0x6570, 0x3A, 0x20, 0x31, 0xA, 0x20,
       0x20, 0x20, 0x20, 0x25B8, 0x20, 0x51FA, 0x73B0, 0x7AE0, 0x8282, 0x3A, 0x20, 0xA,
       0x20, 0x20, 0x20, 0x20, 0x25B8, 0x20, 0x5916, 0x8C8C, 0x7279, 0x5F81, 0x3A, 0x20,
       0x65E0, 0x8BB0, 0x5F55, 0xA, 0x20, 0x20, 0x20, 0x20, 0x25B8, 0x20, 0x6027, 0x683C,
       0x7279, 0x70B9, 0x3A, 0x20, 0x65E0, 0x8BB0, 0x5F55, 0xA, 0x20, 0x20, 0x20, 0x20,
       0x25B8, 0x20, 0x4EBA, 0x7269, 0x5173, 0x7CFB, 0x3A, 0x20, 0x65E0, 0x8BB0, 0x5F55,
       0xA, 0x20, 0x20, 0x20, 0x20, 0x25B8, 0x20, 0x89D2, 0x8272, 0x91CD, 0x8981, 0x6027,
       0x3A, 0x20, 0x65E0, 0x8BB0, 0x5F55, 0xA, 0x2501, 0x2501, 0x2501, 0x2501, 0x2501,
       0x2501, 0x2501, 0x2501, 0x2501, 0x2501, 0x2501, 0x2501, 0x2501, 0x2501, 0x2501,
       0x2501, 0x2501, 0x2501, 0x2501, 0x2501, 0x2501, 0x2501, 0x2501, 0x2501, 0x2501,
       0x2501, 0x2501, 0x2501, 0x2501, 0x2501, 0x2501, 0x2501, 0x2501, 0x2501, 0x2501,
       0x2501, 0x2501, 0x2501, 0x2501, 0x2501, 0x2501, 0x2501, 0x2501, 0x2501, 0x2501,
       0x2501, 0x2501, 0x2501, 0x2501, 0x2501, 0x2501, 0x2501, 0x2501, 0x2501, 0x2501,
       0x2501, 0x2501, 0x2501, 0x2501, 0x2501, 0xA]"


section \<open>Model API helper\<close>

text \<open>
  A decoded JSON value; an object is the list of its members. The helper never reads the
  value of a number.
\<close>

datatype json =
    JNull
  | JBool bool
  | JNum int
  | JStr ustring
  | JArr "json list"
  | JObj "(ustring \<times> json) list"

text \<open>
  What the helper reads of a response: the status code and \<^verbatim>\<open>response.json()\<close>, which
  is \<open>None\<close> when decoding raises \<^verbatim>\<open>JSONDecodeError\<close>.
\<close>

record response =
  status_code :: int
  json_body :: "json option"

text \<open>
  How the request of one attempt can end: \<^verbatim>\<open>requests.post\<close> raises
  \<^verbatim>\<open>requests.exceptions.Timeout\<close>; another exception is raised, by the request or while
  the debug transcript is written; or there is a response to check.
\<close>

datatype post_result = Timeout | OtherError | Response response

text \<open>
  The two settings of the analyzer that the helper's loop reads. The delay is a number of
  seconds that \<^verbatim>\<open>time.sleep\<close> accepts, as the 30 of the constructor is.
\<close>

record analyzer =
  max_retries :: int
  retry_delay :: int

definition default_analyzer :: analyzer where
  "default_analyzer = \<lparr>max_retries = 3, retry_delay = 30\<rparr>"

text \<open>What the call does to the outside: requests posted and pauses slept.\<close>

datatype event = Post nat | Sleep int

text \<open>How one round of the loop ends.\<close>

datatype control = Continue | Break | Return json

definition key_message :: ustring where
  "key_message = of_ascii ''message''"

definition key_content :: ustring where
  "key_content = of_ascii ''content''"

fun is_substring :: "ustring \<Rightarrow> ustring \<Rightarrow> bool" where
  "is_substring k [] = (k = [])"
| "is_substring k (c # s) = (take (length k) (c # s) = k \<or> is_substring k s)"

text \<open>
  \<^verbatim>\<open>key in x\<close> for a string key: membership among the keys of an object, among the
  elements of an array, substring of a string; \<open>None\<close> is the \<^verbatim>\<open>TypeError\<close> of the other
  values.
\<close>

fun py_in :: "ustring \<Rightarrow> json \<Rightarrow> bool option" where
  "py_in k (JObj members) = Some (k \<in> fst ` set members)"
| "py_in k (JArr xs) = Some (JStr k \<in> set xs)"
| "py_in k (JStr s) = Some (is_substring k s)"
| "py_in k JNull = None"
| "py_in k (JBool b) = None"
| "py_in k (JNum n) = None"

text \<open>
  The part of the loop body after the request: the status check and the checks of the
  decoded body. A \<^verbatim>\<open>TypeError\<close> of \<^verbatim>\<open>in\<close> is not a \<^verbatim>\<open>JSONDecodeError\<close>, so it reaches
  \<^verbatim>\<open>except Exception\<close>, which breaks.
\<close>

definition check_response :: "response \<Rightarrow> control" where
  "check_response resp =
     (if status_code resp \<noteq> 200 then Continue
      else
        (case json_body resp of
           None \<Rightarrow> Continue
         | Some data \<Rightarrow>
             (case data of
                JObj members \<Rightarrow>
                  (case map_of members key_message of
                     None \<Rightarrow> Continue
                   | Some message \<Rightarrow>
                       (case py_in key_content message of
                          None \<Rightarrow> Break
                        | Some has_content \<Rightarrow> if has_content then Return data else Continue))
              | _ \<Rightarrow> Continue)))"

text \<open>
  \<^verbatim>\<open>for attempt in range(self.max_retries)\<close>, over the attempt numbers still to come:
  the events of the call and its result, \<open>None\<close> for Python's \<^verbatim>\<open>None\<close>. The environment
  gives the outcome of the request of each attempt.
\<close>

fun call_attempts :: "analyzer \<Rightarrow> (nat \<Rightarrow> post_result) \<Rightarrow> nat list \<Rightarrow> event list \<times> json option" where
  "call_attempts a env [] = ([], None)"
| "call_attempts a env (attempt # rest) =
     (case env attempt of
        Timeout \<Rightarrow>
          (let pause = (if int attempt < max_retries a - 1 then [Sleep (retry_delay a)] else []);
               (events, result) = call_attempts a env rest
           in (Post attempt # pause @ events, result))
      | OtherError \<Rightarrow> ([Post attempt], None)
      | Response resp \<Rightarrow>
          (case check_response resp of
             Continue \<Rightarrow>
               (let (events, result) = call_attempts a env rest
                in (Post attempt # events, result))
           | Break \<Rightarrow> ([Post attempt], None)
           | Return data \<Rightarrow> ([Post attempt], Some data)))"

definition call_model_api :: "analyzer \<Rightarrow> (nat \<Rightarrow> post_result) \<Rightarrow> event list \<times> json option" where
  "call_model_api a env = call_attempts a env [0..<nat (max_retries a)]"

text \<open>
  Sample environments: every request answered with status 500; every request timing
  out; a timeout followed by answers with status 500; an answer with status 500 followed
  by answers that pass all checks (an object whose message is an object with a
  content); every request answered with an object whose message is \<^verbatim>\<open>null\<close>.
\<close>

definition always_500 :: "nat \<Rightarrow> post_result" where
  "always_500 attempt = Response \<lparr>status_code = 500, json_body = None\<rparr>"

definition always_timeout :: "nat \<Rightarrow> post_result" where
  "always_timeout attempt = Timeout"

definition timeout_then_500 :: "nat \<Rightarrow> post_result" where
  "timeout_then_500 attempt =
     (if attempt = 0 then Timeout else Response \<lparr>status_code = 500, json_body = None\<rparr>)"

definition ok_data :: json where
  "ok_data = JObj [(key_message, JObj [(key_content, JStr [0x7B, 0x7D])])]"

definition fail_then_ok :: "nat \<Rightarrow> post_result" where
  "fail_then_ok attempt =
     (if attempt = 0 then Response \<lparr>status_code = 500, json_body = None\<rparr>
      else Response \<lparr>status_code = 200, json_body = Some ok_data\<rparr>)"

definition null_message :: "nat \<Rightarrow> post_result" where
  "null_message attempt =
     Response \<lparr>status_code = 200, json_body = Some (JObj [(key_message, JNull)])\<rparr>"

text \<open>
  For the statements: the outcomes after which the loop goes on to the next attempt,
  the events of one attempt, the attempts made (those whose outcome lets the loop go on,
  and the first one that does not, within the bound), and what the call returns when it
  ends at an outcome.
\<close>

definition goes_on :: "post_result \<Rightarrow> bool" where
  "goes_on r = (case r of Timeout \<Rightarrow> True | OtherError \<Rightarrow> False
                | Response resp \<Rightarrow> check_response resp = Continue)"

definition attempt_events :: "analyzer \<Rightarrow> (nat \<Rightarrow> post_result) \<Rightarrow> nat \<Rightarrow> event list" where
  "attempt_events a env k =
     Post k # (if env k = Timeout \<and> int k < max_retries a - 1 then [Sleep (retry_delay a)] else [])"

definition attempts_made :: "analyzer \<Rightarrow> (nat \<Rightarrow> post_result) \<Rightarrow> nat list" where
  "attempts_made a env =
     (let ks = [0..<nat (max_retries a)]
      in take (Suc (length (takeWhile (\<lambda>k. goes_on (env k)) ks))) ks)"

definition final_result :: "post_result \<Rightarrow> json option" where
  "final_result r =
     (case r of
        Response resp \<Rightarrow> (case check_response resp of Return data \<Rightarrow> Some data | _ \<Rightarrow> None)
      | _ \<Rightarrow> None)"


section \<open>Properties of the heading pattern\<close>

text \<open>
  A match of a pattern that ends in a single-character item is not empty, lies inside
  the input, and its last character satisfies that item.
\<close>

lemma match_here_last_One:
  "match_here items s = Some n \<Longrightarrow> items \<noteq> [] \<Longrightarrow> last items = One p \<Longrightarrow>
     0 < n \<and> n \<le> length s \<and> p (s ! (n - 1))"
proof (induction items s arbitrary: n rule: match_here.induct)
  case (3 q r c s)
  then show ?case
    by (cases "r = []") (auto split: if_splits)
next
  case (5 q r c s)
  then show ?case
    by (cases "r = []") (auto split: if_splits option.splits)
qed simp_all

lemma match_here_le: "match_here items s = Some n \<Longrightarrow> n \<le> length s"
  by (induction items s arbitrary: n rule: match_here.induct)
     (auto split: if_splits option.splits)

lemma heading_match_bounds:
  assumes "match_here heading_pattern s = Some n"
  shows "0 < n" and "n \<le> length s" and "s ! (n - 1) = newline"
  using match_here_last_One [OF assms, of "\<lambda>c. c = newline"]
  by (simp_all add: heading_pattern_def)

lemma match_here_no_newline:
  assumes "newline \<notin> set t"
  shows "match_here heading_pattern t = None"
proof (cases "match_here heading_pattern t")
  case (Some n)
  from heading_match_bounds [OF Some] have "t ! (n - 1) \<in> set t"
    by (intro nth_mem) linarith
  with heading_match_bounds(3) [OF Some] assms show ?thesis by simp
qed simp

lemma match_here_append_line:
  "items \<noteq> [] \<Longrightarrow> last items = One (\<lambda>c. c = newline) \<Longrightarrow> newline \<notin> set t \<Longrightarrow>
   match_here items (s @ t) = match_here items s"
proof (induction items s rule: match_here.induct)
  case (1 s)
  then show ?case by simp
next
  case (2 p r)
  show ?case
  proof (cases "match_here (One p # r) t")
    case None then show ?thesis by simp
  next
    case (Some n)
    from match_here_last_One [OF Some, of "\<lambda>c. c = newline"] 2
    have "0 < n" "n \<le> length t" "t ! (n - 1) = newline" by auto
    then have "newline \<in> set t" by (metis nth_mem diff_less less_le_trans zero_less_one)
    with 2 show ?thesis by simp
  qed
next
  case (3 p r c s)
  then show ?case by (cases "r = []") auto
next
  case (4 p r)
  show ?case
  proof (cases "match_here (Many1 p # r) t")
    case None then show ?thesis by simp
  next
    case (Some n)
    from match_here_last_One [OF Some, of "\<lambda>c. c = newline"] 4
    have "0 < n" "n \<le> length t" "t ! (n - 1) = newline" by auto
    then have "newline \<in> set t" by (metis nth_mem diff_less less_le_trans zero_less_one)
    with 4 show ?thesis by simp
  qed
next
  case (5 p r c s)
  then show ?case by (cases "r = []") (auto split: option.splits)
qed


text \<open>
  Where the pattern sits behind a greedy run: if the rest of the pattern cannot begin
  with a character of the run, the run takes every character it can and no shorter
  choice is ever tried with success. Both runs of the heading pattern are of this kind,
  so the match at a position is determined by the shape of the text.
\<close>

lemma match_here_Many1_run:
  assumes "\<And>c s. p c \<Longrightarrow> match_here r (c # s) = None"
  shows "match_here (Many1 p # r) s =
           (if takeWhile p s = [] then None
            else map_option (\<lambda>n. length (takeWhile p s) + n) (match_here r (dropWhile p s)))"
proof (induction s)
  case Nil
  show ?case by simp
next
  case (Cons c s)
  show ?case
  proof (cases "p c")
    case False
    then show ?thesis by simp
  next
    case True
    show ?thesis
    proof (cases "takeWhile p s = []")
      case t: True
      then have "dropWhile p s = s"
        by (cases s) (auto split: if_splits)
      with t True Cons show ?thesis by (cases "match_here r s") simp_all
    next
      case f: False
      then obtain d s' where s: "s = d # s'" and d: "p d"
        by (cases s) (auto split: if_splits)
      have "match_here r s = None" unfolding s using d by (rule assms)
      with f True Cons show ?thesis
        by (cases "match_here r (dropWhile p s)") simp_all
    qed
  qed
qed

lemma not_numeral_7AE0: "\<not> is_numeral 0x7AE0"
  by (simp add: is_numeral_def)

lemma match_here_title:
  "match_here [Many1 (\<lambda>c. c \<noteq> newline), One (\<lambda>c. c = newline)] s =
     (if takeWhile (\<lambda>c. c \<noteq> newline) s = [] \<or> dropWhile (\<lambda>c. c \<noteq> newline) s = [] then None
      else Some (length (takeWhile (\<lambda>c. c \<noteq> newline) s) + 1))"
proof -
  have "match_here [One (\<lambda>c. c = newline)] t =
          (if t = [] then None else if hd t = newline then Some 1 else None)" for t
    by (cases t) simp_all
  moreover have "dropWhile (\<lambda>c. c \<noteq> newline) s \<noteq> [] \<Longrightarrow> hd (dropWhile (\<lambda>c. c \<noteq> newline) s) = newline"
    using hd_dropWhile [of "\<lambda>c. c \<noteq> newline" s] by simp
  ultimately show ?thesis
    by (subst match_here_Many1_run) auto
qed

lemma match_here_heading_eq:
  "match_here heading_pattern (c # s) =
     (if c = 0x7B2C \<and> takeWhile is_numeral s \<noteq> [] then
        (case dropWhile is_numeral s of
           z # w # t \<Rightarrow>
             if z = 0x7AE0 \<and> is_space w \<and> takeWhile (\<lambda>c. c \<noteq> newline) t \<noteq> [] \<and>
                dropWhile (\<lambda>c. c \<noteq> newline) t \<noteq> []
             then Some (length (takeWhile is_numeral s) +
                        length (takeWhile (\<lambda>c. c \<noteq> newline) t) + 4)
             else None
         | _ \<Rightarrow> None)
      else None)"
proof -
  let ?r = "[One (\<lambda>c. c = 0x7AE0), One is_space, Many1 (\<lambda>c. c \<noteq> newline),
             One (\<lambda>c. c = newline)]"
  have none: "match_here ?r (d # t) = None" if "is_numeral d" for d t
    using that not_numeral_7AE0 by auto
  have run: "match_here (Many1 is_numeral # ?r) s =
      (if takeWhile is_numeral s = [] then None
       else map_option (\<lambda>n. length (takeWhile is_numeral s) + n)
              (match_here ?r (dropWhile is_numeral s)))"
    by (rule match_here_Many1_run) (rule none)
  have rest: "match_here ?r u =
      (case u of z # w # t \<Rightarrow>
         if z = 0x7AE0 \<and> is_space w \<and> takeWhile (\<lambda>c. c \<noteq> newline) t \<noteq> [] \<and>
            dropWhile (\<lambda>c. c \<noteq> newline) t \<noteq> []
         then Some (length (takeWhile (\<lambda>c. c \<noteq> newline) t) + 3) else None
       | _ \<Rightarrow> None)" for u
    by (auto simp: match_here_title split: list.splits)
  have A: "match_here heading_pattern (c # s) =
      (if c = 0x7B2C then map_option Suc (match_here (Many1 is_numeral # ?r) s) else None)"
    by (simp add: heading_pattern_def heading_group_def)
  show ?thesis
  proof (cases "dropWhile is_numeral s")
    case Nil
    show ?thesis unfolding A run rest Nil by simp
  next
    case outer: (Cons z u)
    show ?thesis
    proof (cases u)
      case Nil
      show ?thesis unfolding A run rest outer Nil by simp
    next
      case (Cons w t)
      show ?thesis unfolding A run rest outer Cons by simp
    qed
  qed
qed

lemma run_then_stop:
  assumes "\<forall>x\<in>set xs. p x" and "\<not> p y"
  shows "takeWhile p (xs @ y # ys) = xs" and "dropWhile p (xs @ y # ys) = y # ys"
  using assms by (simp_all add: takeWhile_tail dropWhile_append2 takeWhile_eq_all_conv [THEN iffD2])

lemma heading_text_iff:
  "heading_text h \<longleftrightarrow>
     (\<exists>nums w ttl. h = 0x7B2C # nums @ 0x7AE0 # w # ttl \<and> nums \<noteq> [] \<and>
        (\<forall>x\<in>set nums. is_numeral x) \<and> is_space w \<and> ttl \<noteq> [] \<and> newline \<notin> set ttl)"
proof
  assume "heading_text h"
  then obtain c s where h: "h = c # s" by (cases h) auto
  with \<open>heading_text h\<close> obtain z w ttl where
    *: "c = 0x7B2C" "takeWhile is_numeral s \<noteq> []" "dropWhile is_numeral s = z # w # ttl"
       "z = 0x7AE0" "is_space w" "ttl \<noteq> []" "newline \<notin> set ttl"
    by (auto split: list.splits)
  have "s = takeWhile is_numeral s @ dropWhile is_numeral s" by simp
  with * h have "h = 0x7B2C # takeWhile is_numeral s @ 0x7AE0 # w # ttl" by simp
  moreover have "\<forall>x\<in>set (takeWhile is_numeral s). is_numeral x"
    by (auto dest: set_takeWhileD)
  ultimately show "\<exists>nums w ttl. h = 0x7B2C # nums @ 0x7AE0 # w # ttl \<and> nums \<noteq> [] \<and>
        (\<forall>x\<in>set nums. is_numeral x) \<and> is_space w \<and> ttl \<noteq> [] \<and> newline \<notin> set ttl"
    using * by blast
next
  assume "\<exists>nums w ttl. h = 0x7B2C # nums @ 0x7AE0 # w # ttl \<and> nums \<noteq> [] \<and>
        (\<forall>x\<in>set nums. is_numeral x) \<and> is_space w \<and> ttl \<noteq> [] \<and> newline \<notin> set ttl"
  then obtain nums w ttl where
    *: "h = 0x7B2C # nums @ 0x7AE0 # w # ttl" "nums \<noteq> []" "\<forall>x\<in>set nums. is_numeral x"
       "is_space w" "ttl \<noteq> []" "newline \<notin> set ttl"
    by blast
  from run_then_stop [OF *(3) not_numeral_7AE0, of "w # ttl"] * show "heading_text h"
    by simp
qed

lemma match_here_heading:
  "match_here heading_pattern s = Some n \<longleftrightarrow>
     (\<exists>h rest. s = h @ newline # rest \<and> heading_text h \<and> n = length h + 1)"
proof
  assume m: "match_here heading_pattern s = Some n"
  then obtain c s1 where s: "s = c # s1"
    by (cases s) (auto simp: heading_pattern_def heading_group_def)
  let ?nn = "\<lambda>c. c \<noteq> newline"
  from m [unfolded s match_here_heading_eq] obtain z w t where
    *: "c = 0x7B2C" "takeWhile is_numeral s1 \<noteq> []" "dropWhile is_numeral s1 = z # w # t"
       "z = 0x7AE0" "is_space w" "takeWhile ?nn t \<noteq> []" "dropWhile ?nn t \<noteq> []"
       "n = length (takeWhile is_numeral s1) + length (takeWhile ?nn t) + 4"
    by (auto split: if_splits list.splits)
  from *(7) obtain rest where d: "dropWhile ?nn t = newline # rest"
    using hd_dropWhile [of ?nn t] by (cases "dropWhile ?nn t") auto
  let ?h = "0x7B2C # takeWhile is_numeral s1 @ 0x7AE0 # w # takeWhile ?nn t"
  have "s1 = takeWhile is_numeral s1 @ dropWhile is_numeral s1" by simp
  also have "dropWhile is_numeral s1 = 0x7AE0 # w # (takeWhile ?nn t @ dropWhile ?nn t)"
    using * by simp
  finally have "s = ?h @ newline # rest"
    using s * d by simp
  moreover have "heading_text ?h"
    unfolding heading_text_iff using * by (auto dest: set_takeWhileD)
  moreover have "n = length ?h + 1" using * by simp
  ultimately show "\<exists>h rest. s = h @ newline # rest \<and> heading_text h \<and> n = length h + 1"
    by blast
next
  assume "\<exists>h rest. s = h @ newline # rest \<and> heading_text h \<and> n = length h + 1"
  then obtain h rest nums w ttl where
    *: "s = h @ newline # rest" "n = length h + 1"
       "h = 0x7B2C # nums @ 0x7AE0 # w # ttl" "nums \<noteq> []" "\<forall>x\<in>set nums. is_numeral x"
       "is_space w" "ttl \<noteq> []" "newline \<notin> set ttl"
    unfolding heading_text_iff by blast
  let ?nn = "\<lambda>c. c \<noteq> newline"
  have s: "s = 0x7B2C # (nums @ 0x7AE0 # w # (ttl @ newline # rest))"
    using * by simp
  have 1: "takeWhile is_numeral (nums @ 0x7AE0 # w # (ttl @ newline # rest)) = nums"
       "dropWhile is_numeral (nums @ 0x7AE0 # w # (ttl @ newline # rest)) = 0x7AE0 # w # (ttl @ newline # rest)"
    using run_then_stop [OF *(5) not_numeral_7AE0] by simp_all
  have 2: "takeWhile ?nn (ttl @ newline # rest) = ttl" "dropWhile ?nn (ttl @ newline # rest) = newline # rest"
  proof -
    have a: "\<forall>x\<in>set ttl. x \<noteq> newline" using *(8) by auto
    show "takeWhile ?nn (ttl @ newline # rest) = ttl"
      "dropWhile ?nn (ttl @ newline # rest) = newline # rest"
      using run_then_stop [OF a, of newline rest] by simp_all
  qed
  show "match_here heading_pattern s = Some n"
    unfolding s match_here_heading_eq using * by (simp add: 1 2)
qed


text \<open>
  The heading text that a match covers is determined by the position: no second way to
  cut a heading off the same text exists, so the priority order of the matcher never
  decides between two matches. A heading text begins with U+7B2C, which is no
  whitespace: stripping it removes trailing whitespace only, and nothing at all when it
  does not end in whitespace.
\<close>

lemma heading_prefix_unique:
  assumes "s = h @ newline # rest" and "heading_text h"
    and "s = h' @ newline # rest'" and "heading_text h'"
  shows "h = h'"
proof -
  have "match_here heading_pattern s = Some (length h + 1)"
    unfolding match_here_heading using assms(1,2) by blast
  moreover have "match_here heading_pattern s = Some (length h' + 1)"
    unfolding match_here_heading using assms(3,4) by blast
  ultimately have "length h = length h'" by simp
  with assms(1,3) show ?thesis by simp
qed

lemma strip_heading_text:
  "heading_text h \<Longrightarrow> strip h = rev (dropWhile is_space (rev h))"
  by (cases h) (simp_all add: strip_def is_space_def)

lemma strip_heading_text_id:
  "heading_text h \<Longrightarrow> \<not> is_space (last h) \<Longrightarrow> strip h = h"
proof -
  assume h: "heading_text h" and l: "\<not> is_space (last h)"
  then have "h \<noteq> []" by auto
  with l have "dropWhile is_space (rev h) = rev h"
    by (cases h rule: rev_cases) simp_all
  with strip_heading_text [OF h] show ?thesis by simp
qed


section \<open>Properties of the scan\<close>

text \<open>
  Text without a newline holds no match, and appending such text changes no match. Every
  match lies inside the scanned text, covers a heading text and its newline, and the
  next match starts at or after its end.
\<close>

lemma finditer_from_no_newline: "newline \<notin> set t \<Longrightarrow> finditer_from pos t = []"
proof (induction t arbitrary: pos)
  case (Cons c t)
  from Cons.prems have "match_here heading_pattern (c # t) = None"
    by (rule match_here_no_newline)
  with Cons show ?case by simp
qed simp

lemma finditer_from_append_line:
  "newline \<notin> set t \<Longrightarrow> finditer_from pos (s @ t) = finditer_from pos s"
proof (induction pos s rule: finditer_from.induct)
  case (1 pos)
  then show ?case by (simp add: finditer_from_no_newline)
next
  case (2 pos c s)
  have eq: "match_here heading_pattern ((c # s) @ t) = match_here heading_pattern (c # s)"
    using "2.prems" by (intro match_here_append_line) (simp_all add: heading_pattern_def)
  show ?case
  proof (cases "match_here heading_pattern (c # s)")
    case None
    with eq 2 show ?thesis by simp
  next
    case (Some n)
    then have "n \<le> length (c # s)" by (rule match_here_le)
    then have "drop n ((c # s) @ t) = drop n (c # s) @ t"
      using drop_append [of n "c # s" t] by simp
    with Some eq 2 show ?thesis by simp
  qed
qed

lemma drop_Cons_diff: "pos < k \<Longrightarrow> drop (k - pos) (c # s) = drop (k - Suc pos) s"
  by (simp add: drop_Cons' )

lemma finditer_from_Cons:
  "finditer_from pos s = m # ms \<Longrightarrow>
     pos \<le> m_start m \<and> m_start m < m_end m \<and> m_end m \<le> pos + length s \<and>
     ms = finditer_from (m_end m) (drop (m_end m - pos) s) \<and>
     match_here heading_pattern (drop (m_start m - pos) s) = Some (m_end m - m_start m)"
proof (induction pos s rule: finditer_from.induct)
  case (1 pos)
  then show ?case by simp
next
  case (2 pos c s)
  show ?case
  proof (cases "match_here heading_pattern (c # s)")
    case None
    with "2.prems" have *: "finditer_from (pos + 1) s = m # ms" by simp
    from "2.IH"(1) [OF None *] show ?thesis
      by (simp add: drop_Cons_diff)
  next
    case (Some n)
    from heading_match_bounds [OF Some] have "0 < n" "n \<le> length (c # s)" by simp_all
    with Some "2.prems" show ?thesis by auto
  qed
qed

lemmas eval_pattern = finditer_def heading_pattern_def heading_group_def is_space_def
  is_numeral_def newline_def

lemma finditer_from_mem:
  "m \<in> set (finditer_from pos s) \<Longrightarrow>
     pos \<le> m_start m \<and> m_start m < m_end m \<and> m_end m \<le> pos + length s \<and>
     match_here heading_pattern (drop (m_start m - pos) s) = Some (m_end m - m_start m)"
proof (induction pos s rule: finditer_from.induct)
  case (1 pos)
  then show ?case by simp
next
  case (2 pos c s)
  show ?case
  proof (cases "match_here heading_pattern (c # s)")
    case None
    with "2.prems" have "m \<in> set (finditer_from (pos + 1) s)" by simp
    from "2.IH"(1) [OF None this] show ?thesis
      by (simp add: drop_Cons_diff)
  next
    case (Some n)
    note b = heading_match_bounds [OF Some]
    from Some "2.prems" consider "m = \<lparr>m_start = pos, m_end = pos + n\<rparr>"
      | "m \<in> set (finditer_from (pos + n) (drop n (c # s)))" by auto
    then show ?thesis
    proof cases
      case 1
      with Some b show ?thesis by simp
    next
      case 2
      from "2.IH"(2) [OF Some 2] b show ?thesis
        by (auto simp: add.commute)
    qed
  qed
qed

lemma finditer_match:
  assumes "m \<in> set (finditer doc)"
  shows "m_start m < m_end m" and "m_end m \<le> length doc"
    and "heading_text (group1 doc m)" and "doc ! (m_end m - 1) = newline"
proof -
  from finditer_from_mem [OF assms [unfolded finditer_def]]
  have b: "m_start m < m_end m" "m_end m \<le> length doc"
    and mh: "match_here heading_pattern (drop (m_start m) doc) = Some (m_end m - m_start m)"
    by simp_all
  from mh obtain h rest where
    h: "drop (m_start m) doc = h @ newline # rest" "heading_text h" "m_end m - m_start m = length h + 1"
    unfolding match_here_heading by blast
  from b show "m_start m < m_end m" "m_end m \<le> length doc" by simp_all
  from h(3) b have "m_end m - 1 - m_start m = length h" by simp
  with h show "heading_text (group1 doc m)" by (simp add: group1_def slice_def)
  have "m_end m - 1 = m_start m + length h"
    using h(3) b by linarith
  then have "doc ! (m_end m - 1) = drop (m_start m) doc ! length h"
    using b by simp
  with h(1) show "doc ! (m_end m - 1) = newline" by simp
qed

lemma finditer_pair_order:
  assumes "finditer doc = m1 # m2 # ms"
  shows "m_end m1 \<le> m_start m2"
proof -
  from assms have *: "finditer_from 0 doc = m1 # m2 # ms" by (simp add: finditer_def)
  from finditer_from_Cons [OF *]
  have "m2 # ms = finditer_from (m_end m1) (drop (m_end m1) doc)" by simp
  from finditer_from_Cons [OF this [symmetric]] show ?thesis by simp
qed

text \<open>The chapters of a document with matches: those of the inner matches, and the last one.\<close>

lemma slice_append_left: "b \<le> length xs \<Longrightarrow> slice (xs @ ys) a b = slice xs a b"
  by (simp add: slice_def)

lemma chapter_at_append_inner:
  assumes "\<forall>m\<in>set ms. m_start m < m_end m \<and> m_end m \<le> length pre"
    and "i < length ms - 1"
  shows "chapter_at (pre @ line) ms i = chapter_at pre ms i"
proof -
  from assms(2) have "ms ! i \<in> set ms" "ms ! (i + 1) \<in> set ms"
    by (simp_all add: less_diff_conv)
  with assms(1) have "m_end (ms ! i) - 1 \<le> length pre" "m_start (ms ! (i + 1)) \<le> length pre"
    by (auto simp: le_diff_conv intro: less_imp_le order_trans)
  with assms(2) show ?thesis
    by (simp add: chapter_at_def group1_def slice_append_left Let_def)
qed

lemma chapter_at_last:
  assumes "ms \<noteq> []"
  shows "chapter_at doc ms (length ms - 1) =
           \<lparr>title = strip (group1 doc (last ms)), content = strip (drop (m_end (last ms)) doc)\<rparr>"
  using assms by (simp add: chapter_at_def slice_def last_conv_nth Let_def)

lemma split_into_chapters_snoc:
  assumes "finditer doc = ms" and "ms \<noteq> []"
  shows "split_into_chapters doc =
           map (chapter_at doc ms) [0..<length ms - 1] @
           [\<lparr>title = strip (group1 doc (last ms)), content = strip (drop (m_end (last ms)) doc)\<rparr>]"
proof -
  from assms(2) have "[0..<length ms] = [0..<length ms - 1] @ [length ms - 1]"
    by (cases ms rule: rev_cases) simp_all
  then have "map (chapter_at doc ms) [0..<length ms] =
      map (chapter_at doc ms) [0..<length ms - 1] @ [chapter_at doc ms (length ms - 1)]"
    by simp
  moreover have "split_into_chapters doc = map (chapter_at doc ms) [0..<length ms]"
    using assms by (simp add: split_into_chapters_def)
  ultimately show ?thesis
    by (simp only: chapter_at_last [OF assms(2)])
qed

lemma finditer_doc_one_heading: "finditer doc_one_heading = [\<lparr>m_start = 9, m_end = 21\<rparr>]"
  by (simp add: doc_one_heading_def eval_pattern)

lemma finditer_doc_two_headings:
  "finditer doc_two_headings = [\<lparr>m_start = 9, m_end = 21\<rparr>, \<lparr>m_start = 47, m_end = 59\<rparr>]"
  by (simp add: doc_two_headings_def eval_pattern)

lemma split_without_heading:
  "finditer doc = [] \<Longrightarrow> split_into_chapters doc = [\<lparr>title = full_text_title, content = doc\<rparr>]"
  by (simp add: split_into_chapters_def)


section \<open>Chapter splitter: the claims\<close>

text \<open>
  C1. The claim: a document in which the pattern finds no match comes back as exactly one
  chapter, titled with the sentinel, whose content is the document trimmed of leading
  and trailing whitespace. The branch for no match returns the document as it is
  (\<open>split_without_heading\<close>), while the branch for matches strips every content. On the
  three-character document \<open>hi\<close> plus newline the pattern finds nothing, the returned
  content still ends in the newline, and the trimmed text would be \<open>hi\<close>.
\<close>

theorem split_no_heading_keeps_whitespace:
  "finditer [0x68, 0x69, 0x0A] = [] \<and>
   split_into_chapters [0x68, 0x69, 0x0A] =
     [\<lparr>title = full_text_title, content = [0x68, 0x69, 0x0A]\<rparr>] \<and>
   strip [0x68, 0x69, 0x0A] = [0x68, 0x69]"
  by (simp add: split_into_chapters_def eval_pattern strip_def)

text \<open>
  C5. When the pattern finds exactly two matches, the result is exactly two chapters in
  the order of the matches. The title of each is the text of its heading match (group 1,
  a text of heading shape) and the content of the first is the text from the end of its
  match to the start of the second match, the content of the second the text from the
  end of its match to the end of the document; titles and contents are stripped of
  leading and trailing whitespace. The matches lie in the document in this order and do
  not overlap.
\<close>

theorem split_two_headings:
  assumes "finditer doc = [m1, m2]"
  shows "split_into_chapters doc =
           [\<lparr>title = strip (group1 doc m1),
             content = strip (slice doc (m_end m1) (m_start m2))\<rparr>,
            \<lparr>title = strip (group1 doc m2),
             content = strip (drop (m_end m2) doc)\<rparr>] \<and>
         heading_text (group1 doc m1) \<and> heading_text (group1 doc m2) \<and>
         m_start m1 < m_end m1 \<and> m_end m1 \<le> m_start m2 \<and>
         m_start m2 < m_end m2 \<and> m_end m2 \<le> length doc"
proof -
  have "[0..<length [m1, m2]] = [0, 1]"
    by (simp add: upt_rec)
  then have "split_into_chapters doc =
           [\<lparr>title = strip (group1 doc m1),
             content = strip (slice doc (m_end m1) (m_start m2))\<rparr>,
            \<lparr>title = strip (group1 doc m2),
             content = strip (drop (m_end m2) doc)\<rparr>]"
    using assms by (simp add: split_into_chapters_def chapter_at_def slice_def)
  moreover have "m1 \<in> set (finditer doc)" "m2 \<in> set (finditer doc)"
    using assms by simp_all
  note finditer_match [OF this(1)] finditer_match [OF this(2)]
  moreover have "m_end m1 \<le> m_start m2"
    using assms by (rule finditer_pair_order)
  ultimately show ?thesis by simp
qed

text \<open>The first test of the repository: both headings found, both bodies trimmed.\<close>

theorem split_two_headings_witness:
  "finditer doc_two_headings = [\<lparr>m_start = 9, m_end = 21\<rparr>, \<lparr>m_start = 47, m_end = 59\<rparr>] \<and>
   split_into_chapters doc_two_headings =
     [\<lparr>title = [0x7B2C, 0x31, 0x7AE0, 0x20, 0x4E07, 0x836F, 0x8054, 0x76DF, 0x7684, 0x8BDE, 0x751F],
       content = [0x8FD9, 0x662F, 0x7B2C, 0x4E00, 0x7AE0, 0x7684, 0x5185, 0x5BB9, 0x3002]\<rparr>,
      \<lparr>title = [0x7B2C, 0x32, 0x7AE0, 0x20, 0x4E07, 0x836F, 0x8054, 0x76DF, 0x7684, 0x5D1B, 0x8D77],
       content = [0x8FD9, 0x662F, 0x7B2C, 0x4E8C, 0x7AE0, 0x7684, 0x5185, 0x5BB9, 0x3002]\<rparr>]"
proof -
  note f = finditer_doc_two_headings
  let ?m1 = "\<lparr>m_start = 9, m_end = 21\<rparr>" and ?m2 = "\<lparr>m_start = 47, m_end = 59\<rparr>"
  from split_two_headings [OF f]
  have "split_into_chapters doc_two_headings =
     [\<lparr>title = strip (group1 doc_two_headings ?m1),
       content = strip (slice doc_two_headings (m_end ?m1) (m_start ?m2))\<rparr>,
      \<lparr>title = strip (group1 doc_two_headings ?m2),
       content = strip (drop (m_end ?m2) doc_two_headings)\<rparr>]"
    by (rule conjunct1)
  also have "strip (group1 doc_two_headings ?m1) =
     [0x7B2C, 0x31, 0x7AE0, 0x20, 0x4E07, 0x836F, 0x8054, 0x76DF, 0x7684, 0x8BDE, 0x751F]"
    by (simp add: doc_two_headings_def group1_def slice_def strip_def is_space_def)
  also have "strip (slice doc_two_headings (m_end ?m1) (m_start ?m2)) =
     [0x8FD9, 0x662F, 0x7B2C, 0x4E00, 0x7AE0, 0x7684, 0x5185, 0x5BB9, 0x3002]"
    by (simp add: doc_two_headings_def slice_def strip_def is_space_def)
  also have "strip (group1 doc_two_headings ?m2) =
     [0x7B2C, 0x32, 0x7AE0, 0x20, 0x4E07, 0x836F, 0x8054, 0x76DF, 0x7684, 0x5D1B, 0x8D77]"
    by (simp add: doc_two_headings_def group1_def slice_def strip_def is_space_def)
  also have "strip (drop (m_end ?m2) doc_two_headings) =
     [0x8FD9, 0x662F, 0x7B2C, 0x4E8C, 0x7AE0, 0x7684, 0x5185, 0x5BB9, 0x3002]"
    by (simp add: doc_two_headings_def strip_def is_space_def)
  finally show ?thesis using f by simp
qed

text \<open>
  C6. When the pattern finds exactly one match, the result is exactly one chapter; its
  content is the whole text after the heading match, stripped. Whatever follows the
  heading and does not match the pattern stays in this chapter, however much it looks
  like a further chapter.
\<close>

theorem split_one_heading:
  assumes "finditer doc = [m]"
  shows "split_into_chapters doc =
           [\<lparr>title = strip (group1 doc m), content = strip (drop (m_end m) doc)\<rparr>] \<and>
         heading_text (group1 doc m) \<and> m_start m < m_end m \<and> m_end m \<le> length doc"
proof -
  have "split_into_chapters doc =
           [\<lparr>title = strip (group1 doc m), content = strip (drop (m_end m) doc)\<rparr>]"
    using assms by (simp add: split_into_chapters_def chapter_at_def slice_def)
  moreover have "m \<in> set (finditer doc)"
    using assms by simp
  note finditer_match [OF this]
  ultimately show ?thesis by simp
qed

text \<open>
  The second test of the repository: the two body lines both contain a chapter number
  between U+7B2C and U+7AE0 and stay in the one chapter.
\<close>

theorem split_one_heading_witness:
  "finditer doc_one_heading = [\<lparr>m_start = 9, m_end = 21\<rparr>] \<and>
   split_into_chapters doc_one_heading =
     [\<lparr>title = [0x7B2C, 0x31, 0x7AE0, 0x20, 0x4E07, 0x836F, 0x8054, 0x76DF, 0x7684, 0x8BDE, 0x751F],
       content = [0x8FD9, 0x662F, 0x7B2C, 0x4E00, 0x7AE0, 0x7684, 0x5185, 0x5BB9, 0x3002, 0xA,
                  0x20, 0x20, 0x20, 0x20, 0x20, 0x20, 0x20, 0x20,
                  0x8FD9, 0x662F, 0x7B2C, 0x4E8C, 0x7AE0, 0x7684, 0x5185, 0x5BB9, 0x3002]\<rparr>]"
proof -
  note f = finditer_doc_one_heading
  from split_one_heading [OF f]
  have "split_into_chapters doc_one_heading =
     [\<lparr>title = strip (group1 doc_one_heading \<lparr>m_start = 9, m_end = 21\<rparr>),
       content = strip (drop (m_end \<lparr>m_start = 9, m_end = 21\<rparr>) doc_one_heading)\<rparr>]"
    by (rule conjunct1)
  also have "strip (group1 doc_one_heading \<lparr>m_start = 9, m_end = 21\<rparr>) =
     [0x7B2C, 0x31, 0x7AE0, 0x20, 0x4E07, 0x836F, 0x8054, 0x76DF, 0x7684, 0x8BDE, 0x751F]"
    by (simp add: doc_one_heading_def group1_def slice_def strip_def is_space_def)
  also have "strip (drop (m_end \<lparr>m_start = 9, m_end = 21\<rparr>) doc_one_heading) =
     [0x8FD9, 0x662F, 0x7B2C, 0x4E00, 0x7AE0, 0x7684, 0x5185, 0x5BB9, 0x3002, 0xA,
                  0x20, 0x20, 0x20, 0x20, 0x20, 0x20, 0x20, 0x20,
                  0x8FD9, 0x662F, 0x7B2C, 0x4E8C, 0x7AE0, 0x7684, 0x5185, 0x5BB9, 0x3002]"
    by (simp add: doc_one_heading_def strip_def is_space_def)
  finally show ?thesis using f by simp
qed

text \<open>
  C10. The pattern ends in a newline: every match ends with one. So a last line that no
  newline closes starts no chapter, whatever its shape, a heading shape included: the
  matches of the document are those of the text before that line and all end before it. If there are matches, the chapters are those of the
  text before the line, except that the content of the last one runs on through the
  line; if there are none, the document is the single chapter with the sentinel title.
\<close>

theorem final_line_without_newline:
  assumes "newline \<notin> set line"
  shows "finditer (pre @ line) = finditer pre \<and>
         (\<forall>m\<in>set (finditer (pre @ line)).
            (pre @ line) ! (m_end m - 1) = newline \<and> m_end m \<le> length pre) \<and>
         (finditer pre = [] \<longrightarrow>
            split_into_chapters (pre @ line) =
              [\<lparr>title = full_text_title, content = pre @ line\<rparr>]) \<and>
         (finditer pre \<noteq> [] \<longrightarrow>
            split_into_chapters (pre @ line) =
              butlast (split_into_chapters pre) @
              [\<lparr>title = title (last (split_into_chapters pre)),
                content = strip (drop (m_end (last (finditer pre))) pre @ line)\<rparr>])"
proof -
  let ?ms = "finditer pre"
  have same: "finditer (pre @ line) = ?ms"
    using assms by (simp add: finditer_def finditer_from_append_line)
  have bounds: "\<forall>m\<in>set ?ms. m_start m < m_end m \<and> m_end m \<le> length pre"
    by (simp add: finditer_match)
  have closed: "\<forall>m\<in>set (finditer (pre @ line)). (pre @ line) ! (m_end m - 1) = newline"
    by (rule ballI) (rule finditer_match(4))
  have none: "split_into_chapters (pre @ line) =
      [\<lparr>title = full_text_title, content = pre @ line\<rparr>]" if "?ms = []"
    using that same by (simp add: split_into_chapters_def)
  have some: "split_into_chapters (pre @ line) =
      butlast (split_into_chapters pre) @
      [\<lparr>title = title (last (split_into_chapters pre)),
        content = strip (drop (m_end (last ?ms)) pre @ line)\<rparr>]" if ne: "?ms \<noteq> []"
  proof -
    from ne have "last ?ms \<in> set ?ms" by simp
    with bounds have l: "m_end (last ?ms) - 1 \<le> length pre" "m_end (last ?ms) \<le> length pre"
      by (auto simp: le_diff_conv intro: order_trans)
    have inner: "map (chapter_at (pre @ line) ?ms) [0..<length ?ms - 1] =
        map (chapter_at pre ?ms) [0..<length ?ms - 1]"
      by (rule map_cong [OF refl]) (simp add: chapter_at_append_inner [OF bounds])
    have g: "group1 (pre @ line) (last ?ms) = group1 pre (last ?ms)"
      using l by (simp add: group1_def slice_append_left)
    have "split_into_chapters (pre @ line) =
        map (chapter_at (pre @ line) ?ms) [0..<length ?ms - 1] @
        [\<lparr>title = strip (group1 (pre @ line) (last ?ms)),
          content = strip (drop (m_end (last ?ms)) (pre @ line))\<rparr>]"
      by (rule split_into_chapters_snoc [OF same ne])
    also note inner
    also note g
    also have "drop (m_end (last ?ms)) (pre @ line) = drop (m_end (last ?ms)) pre @ line"
      using l by simp
    finally have A: "split_into_chapters (pre @ line) =
        map (chapter_at pre ?ms) [0..<length ?ms - 1] @
        [\<lparr>title = strip (group1 pre (last ?ms)),
          content = strip (drop (m_end (last ?ms)) pre @ line)\<rparr>]" .
    have B: "split_into_chapters pre =
        map (chapter_at pre ?ms) [0..<length ?ms - 1] @
        [\<lparr>title = strip (group1 pre (last ?ms)),
          content = strip (drop (m_end (last ?ms)) pre)\<rparr>]"
      by (rule split_into_chapters_snoc [OF refl ne])
    show ?thesis unfolding A B by simp
  qed
  from same bounds closed none some show ?thesis by simp
qed

theorem final_line_without_newline_witness:
  "heading_text heading_shaped_line \<and> newline \<notin> set heading_shaped_line \<and>
   finditer (first_chapter_doc @ heading_shaped_line) = [\<lparr>m_start = 0, m_end = 6\<rparr>] \<and>
   split_into_chapters (first_chapter_doc @ heading_shaped_line) =
     [\<lparr>title = [0x7B2C, 0x31, 0x7AE0, 0x20, 0x61],
       content = [0x62, 0x0A, 0x7B2C, 0x32, 0x7AE0, 0x20, 0x63]\<rparr>] \<and>
   finditer heading_shaped_line = [] \<and>
   split_into_chapters ([] @ heading_shaped_line) =
     [\<lparr>title = full_text_title, content = heading_shaped_line\<rparr>]"
proof -
  have nl: "newline \<notin> set heading_shaped_line"
    by (simp add: heading_shaped_line_def newline_def)
  have ht: "heading_text heading_shaped_line"
    by (simp add: heading_shaped_line_def newline_def is_numeral_def is_space_def)
  have f: "finditer first_chapter_doc = [\<lparr>m_start = 0, m_end = 6\<rparr>]"
    by (simp add: first_chapter_doc_def eval_pattern)
  have e: "finditer [] = []"
    by (simp add: finditer_def)
  have s: "split_into_chapters first_chapter_doc =
      [\<lparr>title = [0x7B2C, 0x31, 0x7AE0, 0x20, 0x61], content = [0x62]\<rparr>]"
    unfolding split_into_chapters_def f
    by (simp add: chapter_at_def group1_def slice_def strip_def is_space_def
        first_chapter_doc_def)
  have c: "strip (drop 6 first_chapter_doc @ heading_shaped_line) =
      [0x62, 0x0A, 0x7B2C, 0x32, 0x7AE0, 0x20, 0x63]"
    by (simp add: first_chapter_doc_def heading_shaped_line_def strip_def is_space_def)
  from final_line_without_newline [OF nl, of first_chapter_doc]
    final_line_without_newline [OF nl, of "[]"]
  show ?thesis using nl ht by (simp add: f e s c)
qed


section \<open>Properties of the merger\<close>

text \<open>The keys are different words, and none of the descriptive fields is a hidden key.\<close>

lemma of_ascii_eq_iff [simp]: "of_ascii s = of_ascii t \<longleftrightarrow> s = t"
  by (simp add: of_ascii_def inj_map_eq_map [OF inj_of_char])

lemmas key_defs = key_name_def key_appearance_def key_personality_def key_relationships_def
  key_first_appearance_def key_significance_def key_appearances_def key_chapters_def

lemma descriptive_not_hidden:
  "field \<in> set descriptive_fields \<Longrightarrow> field \<notin> {key_appearances, key_chapters}"
  by (auto simp: descriptive_fields_def key_defs)

lemma the_four_fields:
  "set descriptive_fields =
     {key_appearance, key_personality, key_relationships, key_significance}"
  by (simp add: descriptive_fields_def)

lemma distinct_descriptive_fields: "distinct descriptive_fields"
  by (simp add: descriptive_fields_def key_defs)

text \<open>The value a field holds after one round, as a function of the old and the incoming one.\<close>

lemma merge_field_same:
  "attrs (merge_field char entry field) field =
     (if length (field_value char field) > length (get_or (attrs entry) field [])
      then char field else attrs entry field)"
  by (auto simp: merge_field_def field_value_def get_or_def split: option.splits)

lemma merge_field_other:
  "g \<noteq> field \<Longrightarrow> attrs (merge_field char entry field) g = attrs entry g"
  by (simp add: merge_field_def split: option.splits)

lemma merge_field_counters:
  "appearances (merge_field char entry field) = appearances entry"
  "chapters (merge_field char entry field) = chapters entry"
  by (simp_all add: merge_field_def split: option.splits)

lemma foldl_merge_field_counters:
  "appearances (foldl (merge_field char) entry fs) = appearances entry \<and>
   chapters (foldl (merge_field char) entry fs) = chapters entry"
  by (induction fs arbitrary: entry) (simp_all add: merge_field_counters)

lemma foldl_merge_field_attrs:
  "distinct fs \<Longrightarrow>
   attrs (foldl (merge_field char) entry fs) g =
     (if g \<in> set fs then attrs (merge_field char entry g) g else attrs entry g)"
proof (induction fs arbitrary: entry)
  case Nil
  show ?case by simp
next
  case (Cons f fs)
  show ?case
  proof (cases "g = f")
    case True
    with Cons show ?thesis by simp
  next
    case False
    have "attrs (merge_field char (merge_field char entry f) g) g = attrs (merge_field char entry g) g"
      using False by (simp add: merge_field_same merge_field_other get_or_def)
    with Cons False show ?thesis by (simp add: merge_field_other)
  qed
qed

text \<open>
  One round of the loop over the records, by cases: no name, a new name, a name already
  stored. The entry of another name is not touched.
\<close>

lemma update_absent: "map_of al k = None \<Longrightarrow> AList.update k v al = al @ [(k, v)]"
  by (induction al) (auto split: if_splits)

lemma merge_record_cases:
  "merge_record merged char =
     (case name_of char of
        None \<Rightarrow> merged
      | Some name \<Rightarrow>
          (case map_of merged name of
             None \<Rightarrow> merged @ [(name, seed_record char)]
           | Some entry \<Rightarrow> AList.update name (next_record char entry) merged))"
  by (simp add: merge_record_def name_of_def seed_record_def next_record_def update_absent
      split: option.splits)

lemma next_record_counters:
  "appearances (next_record char entry) = appearances entry + 1"
  "chapters (next_record char entry) = chapters entry @ [get_or char key_first_appearance []]"
  by (simp_all add: next_record_def foldl_merge_field_counters)

lemma wins_iff:
  "wins (char field) stored \<longleftrightarrow> length (field_value char field) > length (get_or (\<lambda>_. stored) field [])"
  by (auto simp: wins_def field_value_def get_or_def split: option.splits)

lemma next_record_attrs:
  "attrs (next_record char entry) field =
     (if field \<in> set descriptive_fields \<and> wins (char field) (attrs entry field)
      then char field else attrs entry field)"
  unfolding next_record_def foldl_merge_field_attrs [OF distinct_descriptive_fields]
  by (simp add: merge_field_same wins_iff get_or_def)

lemma map_of_merge_record_other:
  "name_of char \<noteq> Some n \<Longrightarrow> map_of (merge_record merged char) n = map_of merged n"
  by (auto simp: merge_record_cases update_conv' map_add_def split: option.splits)

lemma map_of_merge_record_same:
  "name_of char = Some n \<Longrightarrow>
   map_of (merge_record merged char) n =
     Some (case map_of merged n of None \<Rightarrow> seed_record char | Some entry \<Rightarrow> next_record char entry)"
  by (auto simp: merge_record_cases update_conv' map_add_def split: option.splits)


text \<open>The two nested loops are one loop over all records in the order of the scan.\<close>

lemma foldl_foldl_concat:
  "foldl (\<lambda>acc xs. foldl f acc xs) acc xss = foldl f acc (concat xss)"
  by (induction xss arbitrary: acc) simp_all

lemma merge_character_data_concat:
  "merge_character_data cl = foldl merge_record [] (concat cl)"
  by (simp add: merge_character_data_def foldl_foldl_concat)

lemma merge_character_data_snoc:
  "merge_character_data (cl @ [chars @ [char]]) =
     merge_record (merge_character_data (cl @ [chars])) char"
  by (simp add: merge_character_data_concat)

text \<open>The keys of the result: the names in the order in which they are first seen.\<close>

lemma keys_merge_record:
  "map fst (merge_record merged char) =
     (case name_of char of
        None \<Rightarrow> map fst merged
      | Some n \<Rightarrow> if n \<in> set (map fst merged) then map fst merged else map fst merged @ [n])"
  by (auto simp: merge_record_cases map_of_eq_None_iff update_keys dest: weak_map_of_SomeI
      split: option.splits)

lemma first_seen_snoc:
  "first_seen (xs @ [x]) = (if x \<in> set xs then first_seen xs else first_seen xs @ [x])"
  by (simp add: first_seen_def)

lemma set_first_seen [simp]: "set (first_seen xs) = set xs"
  by (simp add: first_seen_def)

lemma distinct_first_seen [simp]: "distinct (first_seen xs)"
  by (simp add: first_seen_def)

lemma names_of_snoc:
  "names_of (chars @ [char]) =
     (case name_of char of None \<Rightarrow> names_of chars | Some n \<Rightarrow> names_of chars @ [n])"
  by (simp add: names_of_def map_filter_def split: option.splits)

lemma set_names_of: "set (names_of chars) = {n. \<exists>char\<in>set chars. name_of char = Some n}"
  by (induction chars) (auto simp: names_of_def split: option.splits)

lemma keys_foldl_merge_record:
  "map fst (foldl merge_record [] chars) = first_seen (names_of chars)"
proof (induction chars rule: rev_induct)
  case Nil
  show ?case by (simp add: names_of_def first_seen_def map_filter_def)
next
  case (snoc char chars)
  then show ?case
    by (simp add: keys_merge_record names_of_snoc first_seen_snoc split: option.splits)
qed

lemma keys_merge_character_data:
  "map fst (merge_character_data cl) = first_seen (names_of (concat cl))"
  by (simp add: merge_character_data_concat keys_foldl_merge_record)

text \<open>
  The entry of a name depends on the records of this name only, and records without a
  name change nothing.
\<close>

lemma map_of_foldl_merge_record_filter:
  "map_of m name = map_of m' name \<Longrightarrow>
   map_of (foldl merge_record m chars) name =
     map_of (foldl merge_record m' [c\<leftarrow>chars. name_of c = Some name]) name"
proof (induction chars arbitrary: m m')
  case Nil
  then show ?case by simp
next
  case (Cons c chars)
  show ?case
  proof (cases "name_of c = Some name")
    case True
    with Cons.prems have "map_of (merge_record m c) name = map_of (merge_record m' c) name"
      by (simp add: map_of_merge_record_same)
    from Cons.IH [OF this] True show ?thesis by simp
  next
    case False
    with Cons.prems have "map_of (merge_record m c) name = map_of m' name"
      by (simp add: map_of_merge_record_other)
    from Cons.IH [OF this] False show ?thesis by simp
  qed
qed

lemma foldl_merge_record_nameless:
  "foldl merge_record m [c\<leftarrow>chars. name_of c \<noteq> None] = foldl merge_record m chars"
proof (induction chars arbitrary: m)
  case (Cons c chars)
  then show ?case by (cases "name_of c") (simp_all add: merge_record_cases)
qed simp

lemma seed_record_attrs:
  "field \<in> set descriptive_fields \<Longrightarrow> attrs (seed_record char) field = char field"
  using descriptive_not_hidden [of field] by (simp add: seed_record_def restrict_map_def)

lemma wins_field_value:
  "wins (r2 field) (r1 field) \<longleftrightarrow> length (field_value r2 field) > length (field_value r1 field)"
  by (auto simp: wins_def field_value_def get_or_def split: option.splits)

lemma merge_pair_entry:
  assumes "[c\<leftarrow>chars1. name_of c = Some name] = [r1]"
    and "[c\<leftarrow>chars2. name_of c = Some name] = [r2]"
  shows "map_of (merge_character_data [chars1, chars2]) name = Some (next_record r2 (seed_record r1))"
proof -
  have "r1 \<in> set [c\<leftarrow>chars1. name_of c = Some name]" "r2 \<in> set [c\<leftarrow>chars2. name_of c = Some name]"
    unfolding assms by simp_all
  then have n: "name_of r1 = Some name" "name_of r2 = Some name" by simp_all
  have "merge_character_data [chars1, chars2] = foldl merge_record [] (chars1 @ chars2)"
    by (simp add: merge_character_data_concat)
  then have "map_of (merge_character_data [chars1, chars2]) name =
      map_of (foldl merge_record [] [c\<leftarrow>chars1 @ chars2. name_of c = Some name]) name"
    using map_of_foldl_merge_record_filter [where m = "[]" and m' = "[]" and name = name
        and chars = "chars1 @ chars2", OF refl]
    by (simp only:)
  also have "[c\<leftarrow>chars1 @ chars2. name_of c = Some name] = [r1, r2]"
    using assms by simp
  also have "map_of (foldl merge_record [] [r1, r2]) name = Some (next_record r2 (seed_record r1))"
    using n by (simp add: map_of_merge_record_same)
  finally show ?thesis .
qed

text \<open>The sample records.\<close>

lemmas eval_records = rec_short_def rec_long_def rec_nameless_def rec_other_def rec_tie_def
  key_defs name_of_def

lemma sample_names:
  "name_of rec_short = Some [0x61]" "name_of rec_long = Some [0x61]"
  "name_of rec_tie = Some [0x61]" "name_of rec_other = Some [0x62]"
  "name_of rec_nameless = None"
  by (simp_all add: eval_records)

lemma merge_single_short:
  "merge_character_data ([] @ [[rec_short]]) = [([0x61], seed_record rec_short)]"
  by (simp add: merge_character_data_def merge_record_cases sample_names)

lemma sample_fields:
  "rec_short key_appearance = Some [0x70]" "rec_short key_personality = Some [0x78]"
  "rec_short key_relationships = Some [0x72, 0x73]" "rec_short key_significance = None"
  "rec_long key_appearance = Some [0x71, 0x71]" "rec_long key_personality = Some [0x79, 0x7A]"
  "rec_long key_relationships = Some [0x72]" "rec_long key_significance = Some [0x73]"
  "rec_tie key_appearance = Some [0x71]" "rec_tie key_personality = Some [0x77]"
  "rec_tie key_relationships = None" "rec_tie key_significance = Some []"
  by (simp_all add: eval_records)


section \<open>Character merger: the claims\<close>



text \<open>
  C4. As stated, for every record list that contains a record of the name, the claim
  fails: every occurrence is counted, so a chapter that names the character twice, given
  twice, leaves four appearances.
\<close>

theorem merge_duplicate_in_chapter:
  "name_of rec_short = Some [0x61] \<and>
   map_option appearances
     (map_of (merge_character_data [[rec_short, rec_short], [rec_short, rec_short]]) [0x61]) = Some 4"
  by (simp add: sample_names merge_character_data_def map_of_merge_record_same
      next_record_counters seed_record_def)

text \<open>
  C4, amended. When each of two chapters contains exactly one record of the name, the
  merged record has two appearances, the two first-appearance values as its chapters,
  and in each of the four descriptive fields, appearance, personality, relationships
  and significance, the strictly longer of the two candidates, from whichever chapter
  it came; when neither is strictly longer, the value of the first chapter stays. A record list with exactly one record of the name, given twice, is the
  case of two equal candidates.
\<close>

theorem merge_two_chapters:
  assumes "[c\<leftarrow>chars1. name_of c = Some name] = [r1]"
    and "[c\<leftarrow>chars2. name_of c = Some name] = [r2]"
  shows "\<exists>entry entry'.
           map_of (merge_character_data [chars1, chars2]) name = Some entry \<and>
           map_of (merge_character_data [chars2, chars1]) name = Some entry' \<and>
           appearances entry = 2 \<and>
           chapters entry = [get_or r1 key_first_appearance [], get_or r2 key_first_appearance []] \<and>
           (\<forall>field\<in>{key_appearance, key_personality, key_relationships, key_significance}.
              attrs entry field =
                (if length (field_value r2 field) > length (field_value r1 field)
                 then r2 field else r1 field) \<and>
              (length (field_value r1 field) \<noteq> length (field_value r2 field) \<longrightarrow>
                 attrs entry' field = attrs entry field))"
proof -
  let ?e = "next_record r2 (seed_record r1)" and ?e' = "next_record r1 (seed_record r2)"
  have "map_of (merge_character_data [chars1, chars2]) name = Some ?e"
    using assms by (rule merge_pair_entry)
  moreover have "map_of (merge_character_data [chars2, chars1]) name = Some ?e'"
    using assms(2,1) by (rule merge_pair_entry)
  moreover have "appearances ?e = 2"
    by (simp add: next_record_counters seed_record_def)
  moreover have "chapters ?e = [get_or r1 key_first_appearance [], get_or r2 key_first_appearance []]"
    by (simp add: next_record_counters seed_record_def)
  moreover have "attrs ?e field =
      (if length (field_value r2 field) > length (field_value r1 field) then r2 field else r1 field)"
    and "attrs ?e' field =
      (if length (field_value r1 field) > length (field_value r2 field) then r1 field else r2 field)"
    if "field \<in> set descriptive_fields" for field
    using that by (simp_all add: next_record_attrs seed_record_attrs wins_field_value)
  ultimately show ?thesis
    unfolding the_four_fields [symmetric] by (intro exI [of _ ?e] exI [of _ ?e']) auto
qed

text \<open>
  The list with \<open>rec_short\<close> given twice keeps the four values of \<open>rec_short\<close>; with
  \<open>rec_long\<close> in the other chapter, in either order, the longer appearance and
  personality of \<open>rec_long\<close>, the longer relationships of \<open>rec_short\<close> and the only
  significance are kept.
\<close>

theorem merge_two_chapters_witness:
  "[c\<leftarrow>[rec_other, rec_short]. name_of c = Some [0x61]] = [rec_short] \<and>
   [c\<leftarrow>[rec_long, rec_nameless]. name_of c = Some [0x61]] = [rec_long] \<and>
   map_option (\<lambda>e. (appearances e, chapters e,
       map (attrs e) [key_appearance, key_personality, key_relationships, key_significance]))
     (map_of (merge_character_data [[rec_other, rec_short], [rec_other, rec_short]]) [0x61]) =
     Some (2, [[0x31], [0x31]], [Some [0x70], Some [0x78], Some [0x72, 0x73], None]) \<and>
   map_option (\<lambda>e. (appearances e, chapters e,
       map (attrs e) [key_appearance, key_personality, key_relationships, key_significance]))
     (map_of (merge_character_data [[rec_other, rec_short], [rec_long, rec_nameless]]) [0x61]) =
     Some (2, [[0x31], [0x32]],
           [Some [0x71, 0x71], Some [0x79, 0x7A], Some [0x72, 0x73], Some [0x73]]) \<and>
   map_option (\<lambda>e. map (attrs e)
       [key_appearance, key_personality, key_relationships, key_significance])
     (map_of (merge_character_data [[rec_long, rec_nameless], [rec_other, rec_short]]) [0x61]) =
     Some [Some [0x71, 0x71], Some [0x79, 0x7A], Some [0x72, 0x73], Some [0x73]]"
proof -
  have f1: "[c\<leftarrow>[rec_other, rec_short]. name_of c = Some [0x61]] = [rec_short]"
    by (simp add: sample_names)
  have f2: "[c\<leftarrow>[rec_long, rec_nameless]. name_of c = Some [0x61]] = [rec_long]"
    by (simp add: sample_names)
  have v: "field_value rec_short key_appearance = [0x70]"
    "field_value rec_short key_personality = [0x78]"
    "field_value rec_short key_relationships = [0x72, 0x73]"
    "field_value rec_short key_significance = []"
    "field_value rec_long key_appearance = [0x71, 0x71]"
    "field_value rec_long key_personality = [0x79, 0x7A]"
    "field_value rec_long key_relationships = [0x72]"
    "field_value rec_long key_significance = [0x73]"
    "get_or rec_short key_first_appearance [] = [0x31]"
    "get_or rec_long key_first_appearance [] = [0x32]"
    by (simp_all add: field_value_def get_or_def eval_records)
  from merge_two_chapters [OF f1 f1] obtain e1 where
    a: "map_of (merge_character_data [[rec_other, rec_short], [rec_other, rec_short]]) [0x61] = Some e1"
      "appearances e1 = 2" "chapters e1 = [[0x31], [0x31]]"
      "attrs e1 key_appearance = Some [0x70]" "attrs e1 key_personality = Some [0x78]"
      "attrs e1 key_relationships = Some [0x72, 0x73]" "attrs e1 key_significance = None"
    by (auto simp: v sample_fields)
  from merge_two_chapters [OF f1 f2] obtain e2 e3 where
    b: "map_of (merge_character_data [[rec_other, rec_short], [rec_long, rec_nameless]]) [0x61] = Some e2"
      "appearances e2 = 2" "chapters e2 = [[0x31], [0x32]]"
      "attrs e2 key_appearance = Some [0x71, 0x71]" "attrs e2 key_personality = Some [0x79, 0x7A]"
      "attrs e2 key_relationships = Some [0x72, 0x73]" "attrs e2 key_significance = Some [0x73]"
    and c: "map_of (merge_character_data [[rec_long, rec_nameless], [rec_other, rec_short]]) [0x61] = Some e3"
      "attrs e3 key_appearance = Some [0x71, 0x71]" "attrs e3 key_personality = Some [0x79, 0x7A]"
      "attrs e3 key_relationships = Some [0x72, 0x73]" "attrs e3 key_significance = Some [0x73]"
    by (auto simp: v sample_fields)
  from f1 f2 a b c show ?thesis by simp
qed

text \<open>
  C7. A record whose name is missing or empty leaves the result as it was when it is
  processed, and the result is the same as if no such record had been in the input.
  The first record processed under a name that is not empty adds, at the end of the
  result, an entry for this name with one appearance and with the record's
  first-appearance value, or the empty string if it has none, as its only chapter.
\<close>

theorem merge_nameless_and_first:
  "(name_of char = None \<longrightarrow>
      merge_character_data (cl @ [chars @ [char]]) = merge_character_data (cl @ [chars])) \<and>
   merge_character_data (map (filter (\<lambda>c. name_of c \<noteq> None)) cl) = merge_character_data cl \<and>
   (name_of char = Some name \<and> name \<notin> set (names_of (concat cl @ chars)) \<longrightarrow>
      merge_character_data (cl @ [chars @ [char]]) =
        merge_character_data (cl @ [chars]) @
        [(name, \<lparr>attrs = char |` (- {key_appearances, key_chapters}),
                  appearances = 1,
                  chapters = [get_or char key_first_appearance []]\<rparr>)])"
proof -
  have a: "merge_character_data (cl @ [chars @ [char]]) = merge_character_data (cl @ [chars])"
    if "name_of char = None"
    using that by (simp add: merge_character_data_snoc merge_record_cases)
  have f: "concat (map (filter (\<lambda>c. name_of c \<noteq> None)) cl) = [c\<leftarrow>concat cl. name_of c \<noteq> None]"
    by (simp add: filter_concat)
  have b: "merge_character_data (map (filter (\<lambda>c. name_of c \<noteq> None)) cl) = merge_character_data cl"
    unfolding merge_character_data_concat f by (rule foldl_merge_record_nameless)
  have c: "merge_character_data (cl @ [chars @ [char]]) =
        merge_character_data (cl @ [chars]) @ [(name, seed_record char)]"
    if n: "name_of char = Some name" and new: "name \<notin> set (names_of (concat cl @ chars))"
  proof -
    from new have "name \<notin> set (map fst (merge_character_data (cl @ [chars])))"
      by (simp add: keys_merge_character_data)
    then have "map_of (merge_character_data (cl @ [chars])) name = None"
      by (simp add: map_of_eq_None_iff)
    with n show ?thesis
      by (simp add: merge_character_data_snoc merge_record_cases)
  qed
  from a b c show ?thesis by (simp add: seed_record_def)
qed

theorem merge_nameless_and_first_witness:
  "name_of rec_nameless = None \<and>
   merge_character_data ([] @ [[rec_short] @ [rec_nameless]]) = merge_character_data ([] @ [[rec_short]]) \<and>
   name_of rec_other = Some [0x62] \<and> [0x62] \<notin> set (names_of (concat [] @ [rec_short])) \<and>
   map (\<lambda>(n, e). (n, appearances e, chapters e))
     (merge_character_data ([] @ [[rec_short] @ [rec_other]])) =
     [([0x61], 1, [[0x31]]), ([0x62], 1, [[]])]"
proof -
  have new: "[0x62] \<notin> set (names_of (concat [] @ [rec_short]))"
    by (simp add: names_of_def sample_names)
  have fa: "get_or rec_short key_first_appearance [] = [0x31]" "get_or rec_other key_first_appearance [] = []"
    by (simp_all add: get_or_def eval_records)
  from merge_nameless_and_first [of rec_nameless "[]" "[rec_short]" "[0x62]"]
    merge_nameless_and_first [of rec_other "[]" "[rec_short]" "[0x62]"]
  show ?thesis
    using new sample_names
    by (simp only: merge_single_short) (simp add: seed_record_def fa)
qed

text \<open>
  C8. The merger is a function of the list of record lists. The keys of its result are
  the names that occur in the input, each once, in the order in which the scan through
  the chapters and through the records of each chapter meets them first; as a set they
  do not depend on the order of the input.
\<close>

theorem merge_keys_first_seen:
  "map fst (merge_character_data cl) = first_seen (names_of (concat cl)) \<and>
   distinct (map fst (merge_character_data cl)) \<and>
   set (map fst (merge_character_data cl)) = {n. \<exists>char\<in>set (concat cl). name_of char = Some n} \<and>
   (set (concat cl') = set (concat cl) \<longrightarrow>
      set (map fst (merge_character_data cl')) = set (map fst (merge_character_data cl)))"
  by (simp add: keys_merge_character_data set_names_of)

theorem merge_keys_first_seen_witness:
  "set (concat [[rec_other], [rec_short, rec_long]]) = set (concat [[rec_short, rec_other, rec_long]]) \<and>
   map fst (merge_character_data [[rec_short, rec_other, rec_long]]) = [[0x61], [0x62]] \<and>
   map fst (merge_character_data [[rec_other], [rec_short, rec_long]]) = [[0x62], [0x61]] \<and>
   set (map fst (merge_character_data [[rec_other], [rec_short, rec_long]])) =
   set (map fst (merge_character_data [[rec_short, rec_other, rec_long]]))"
proof -
  have s: "set (concat [[rec_other], [rec_short, rec_long]]) = set (concat [[rec_short, rec_other, rec_long]])"
    by auto
  note t1 = merge_keys_first_seen [of "[[rec_short, rec_other, rec_long]]"
      "[[rec_other], [rec_short, rec_long]]"]
  note t2 = merge_keys_first_seen [of "[[rec_other], [rec_short, rec_long]]"
      "[[rec_other], [rec_short, rec_long]]"]
  have a: "map fst (merge_character_data [[rec_short, rec_other, rec_long]]) = [[0x61], [0x62]]"
    using t1 [THEN conjunct1] by (simp add: names_of_def sample_names first_seen_def)
  have b: "map fst (merge_character_data [[rec_other], [rec_short, rec_long]]) = [[0x62], [0x61]]"
    using t2 [THEN conjunct1] by (simp add: names_of_def sample_names first_seen_def)
  have c: "set (map fst (merge_character_data [[rec_other], [rec_short, rec_long]])) =
      set (map fst (merge_character_data [[rec_short, rec_other, rec_long]]))"
    using t1 [THEN conjunct2, THEN conjunct2, THEN conjunct2, THEN mp, OF s] .
  from s a b c show ?thesis by (intro conjI)
qed


section \<open>Report renderer: the claim\<close>

text \<open>
  Appending in a loop gives the start text followed by the pieces in order; the f-string
  of the loop body is the section of the specification.
\<close>

lemma foldl_report_concat:
  "foldl (\<lambda>report (name, data). report @ f name data @ g) init xs =
     init @ concat (map (\<lambda>(name, data). f name data @ g) xs)"
  by (induction xs arbitrary: init) (auto simp: case_prod_beta)

lemma get_or_shown_field: "get_or (attrs data) field no_record = shown_field data field"
  by (auto simp: get_or_def shown_field_def dom_def split: option.splits)

lemma character_block_section: "character_block name data = character_section name data"
  by (simp add: character_block_def character_section_def get_or_shown_field of_ascii_def)

lemma replicate_60:
  "replicate 60 x =
     [x, x, x, x, x, x, x, x, x, x, x, x, x, x, x, x, x, x, x, x, x, x, x, x, x, x, x, x,
      x, x, x, x, x, x, x, x, x, x, x, x, x, x, x, x, x, x, x, x, x, x, x, x, x, x, x, x,
      x, x, x, x]"
  by (simp add: eval_nat_numeral)

lemma str_int_samples:
  "str_int 3 = [0x33]" "str_int 2 = [0x32]" "str_int 1 = [0x31]" "str_int 12 = [0x31, 0x32]"
  by (simp_all add: str_int_def str_nat.simps)

text \<open>
  C9. The report is the statistics block, showing the number of chapters, that number
  minus the failed count, the failed count and the number of entries of the mapping,
  then the heading of the details, then for each entry of the mapping, in its order, a
  section with the name, the appearance count, the chapter list joined by comma and
  space and the four descriptive fields, followed by a rule line. A descriptive field
  shows the placeholder when its key is absent from the record and the stored text when
  it is present.
\<close>

theorem report_layout:
  "generate_final_report chs characters failed =
     statistics_block (int (length chs)) (int (length chs) - failed) failed
       (int (length characters)) @
     details_head @
     concat (map (\<lambda>(name, data). character_section name data @ rule_line) characters) \<and>
   (\<forall>data field.
      shown_field data field = (case attrs data field of None \<Rightarrow> no_record | Some v \<Rightarrow> v))"
  by (auto simp: generate_final_report_def foldl_report_concat character_block_section
      statistics_block_def shown_field_def dom_def split: option.splits)

theorem report_layout_witness:
  "generate_final_report [(), (), ()] [([0x61], sample_entry_a), ([0x62], sample_entry_b)] 1 =
     sample_report"
proof -
  have a: "character_section [0x61] sample_entry_a =
     label_name @ [0x61] @ label_appearances @ [0x31, 0x32] @
     label_chapters @ [0x78, 0x2C, 0x20, 0x79] @
     label_appearance @ [0x74] @ label_personality @ no_record @
     label_relationships @ no_record @ label_significance @ no_record @ [0x0A]"
    by (simp add: character_section_def sample_entry_a_def shown_field_def str_int_samples
        key_defs newline_def)
  have b: "character_section [0x62] sample_entry_b =
     label_name @ [0x62] @ label_appearances @ [0x31] @ label_chapters @
     label_appearance @ no_record @ label_personality @ no_record @
     label_relationships @ no_record @ label_significance @ no_record @ [0x0A]"
    by (simp add: character_section_def sample_entry_b_def shown_field_def str_int_samples
        key_defs newline_def)
  have "generate_final_report [(), (), ()] [([0x61], sample_entry_a), ([0x62], sample_entry_b)] 1 =
     statistics_block 3 2 1 2 @ details_head @
     (character_section [0x61] sample_entry_a @ rule_line) @
     (character_section [0x62] sample_entry_b @ rule_line)"
    using report_layout [of "[(), (), ()]" "[([0x61], sample_entry_a), ([0x62], sample_entry_b)]" 1,
        THEN conjunct1]
    by simp
  also have "\<dots> = sample_report"
    unfolding a b
    by (simp add: statistics_block_def str_int_samples sample_report_def rule_line_def
        replicate_60 newline_def report_head_def label_succeeded_def label_failed_def
        label_characters_def details_head_def label_name_def label_appearances_def label_chapters_def
        label_appearance_def label_personality_def label_relationships_def
        label_significance_def no_record_def)
  finally show ?thesis .
qed


section \<open>Model API helper: the claim\<close>

text \<open>
  The loop posts the attempts one after the other as long as their outcomes let it go
  on, and stops with the first outcome that does not.
\<close>

lemma call_attempts_events:
  "fst (call_attempts a env ks) =
     concat (map (attempt_events a env)
       (take (Suc (length (takeWhile (\<lambda>k. goes_on (env k)) ks))) ks))"
proof (induction ks)
  case Nil
  show ?case by simp
next
  case (Cons k ks)
  show ?case
  proof (cases "env k")
    case Timeout
    with Cons show ?thesis
      by (simp add: goes_on_def attempt_events_def split_beta Let_def)
  next
    case OtherError
    then show ?thesis by (simp add: goes_on_def attempt_events_def)
  next
    case (Response resp)
    with Cons show ?thesis
      by (cases "check_response resp") (simp_all add: goes_on_def attempt_events_def split_beta)
  qed
qed

lemma call_attempts_result:
  "snd (call_attempts a env ks) =
     (case dropWhile (\<lambda>k. goes_on (env k)) ks of [] \<Rightarrow> None | k # _ \<Rightarrow> final_result (env k))"
proof (induction ks)
  case Nil
  show ?case by simp
next
  case (Cons k ks)
  show ?case
  proof (cases "env k")
    case Timeout
    with Cons show ?thesis
      by (simp add: goes_on_def split_beta Let_def)
  next
    case OtherError
    then show ?thesis by (simp add: goes_on_def final_result_def)
  next
    case (Response resp)
    with Cons show ?thesis
      by (cases "check_response resp") (simp_all add: goes_on_def final_result_def split_beta)
  qed
qed

text \<open>Which outcomes let the loop go on, read off the checks of the response.\<close>

lemma goes_on_failures:
  "goes_on Timeout" "\<not> goes_on OtherError"
  "status_code resp \<noteq> 200 \<Longrightarrow> goes_on (Response resp)"
  "json_body resp = None \<Longrightarrow> goes_on (Response resp)"
  "json_body resp = Some data \<Longrightarrow> \<forall>members. data \<noteq> JObj members \<Longrightarrow> goes_on (Response resp)"
  "json_body resp = Some (JObj members) \<Longrightarrow> map_of members key_message = None \<Longrightarrow>
     goes_on (Response resp)"
  "json_body resp = Some (JObj members) \<Longrightarrow> map_of members key_message = Some message \<Longrightarrow>
     py_in key_content message = Some False \<Longrightarrow> goes_on (Response resp)"
  by (auto simp: goes_on_def check_response_def split: option.splits json.splits)

lemma goes_on_success:
  "status_code resp = 200 \<Longrightarrow> json_body resp = Some (JObj members) \<Longrightarrow>
   map_of members key_message = Some message \<Longrightarrow> py_in key_content message = Some True \<Longrightarrow>
   \<not> goes_on (Response resp) \<and> final_result (Response resp) = Some (JObj members)"
  by (simp add: goes_on_def check_response_def final_result_def)

text \<open>The attempts made are an initial stretch of the attempt numbers.\<close>

lemma take_upt_min: "take m [0..<n] = [0..<min m n]"
  by (cases "m \<le> n") (simp_all add: min_def)

lemma takeWhile_upt_less:
  "k < length (takeWhile P [0..<n]) \<longleftrightarrow> k < n \<and> (\<forall>j\<le>k. P j)"
proof
  assume k: "k < length (takeWhile P [0..<n])"
  have len: "length (takeWhile P [0..<n]) \<le> n"
    using length_takeWhile_le [of P "[0..<n]"] by simp
  have "P j" if "j \<le> k" for j
  proof -
    from that k have j: "j < length (takeWhile P [0..<n])" by simp
    then have "takeWhile P [0..<n] ! j \<in> set (takeWhile P [0..<n])" by simp
    then have "P (takeWhile P [0..<n] ! j)" by (rule set_takeWhileD [THEN conjunct2])
    moreover have "takeWhile P [0..<n] ! j = [0..<n] ! j" using j by (rule takeWhile_nth)
    moreover have "[0..<n] ! j = j" using j len by simp
    ultimately show ?thesis by simp
  qed
  with k len show "k < n \<and> (\<forall>j\<le>k. P j)" by simp
next
  assume a: "k < n \<and> (\<forall>j\<le>k. P j)"
  then have "P ([0..<n] ! i)" if "i < Suc k" for i
    using that by simp
  moreover from a have "Suc k \<le> length [0..<n]" by simp
  ultimately have "Suc k \<le> length (takeWhile P [0..<n])"
    by (rule length_takeWhile_less_P_nth)
  then show "k < length (takeWhile P [0..<n])" by simp
qed

lemma attempts_made_mem:
  "k \<in> set (attempts_made a env) \<longleftrightarrow>
     k < nat (max_retries a) \<and> (\<forall>j<k. goes_on (env j))"
proof -
  let ?n = "nat (max_retries a)" and ?P = "\<lambda>k. goes_on (env k)"
  have "k \<in> set (attempts_made a env) \<longleftrightarrow> k < ?n \<and> k \<le> length (takeWhile ?P [0..<?n])"
    by (auto simp: attempts_made_def take_upt_min Let_def)
  also have "k \<le> length (takeWhile ?P [0..<?n]) \<longleftrightarrow> k = 0 \<or> k - 1 < length (takeWhile ?P [0..<?n])"
    by (cases k) auto
  also have "k - 1 < length (takeWhile ?P [0..<?n]) \<longleftrightarrow> k - 1 < ?n \<and> (\<forall>j\<le>k - 1. ?P j)"
    by (rule takeWhile_upt_less)
  finally show ?thesis
    by (cases k) (auto simp: less_Suc_eq_le)
qed

text \<open>
  The outcomes of a response in full: when the loop goes on, when the call returns data,
  when it ends without a result, and for which messages the test for the content
  raises.
\<close>

lemma py_in_None:
  "py_in key message = None \<longleftrightarrow>
     message = JNull \<or> (\<exists>b. message = JBool b) \<or> (\<exists>n. message = JNum n)"
  by (cases message) simp_all

lemma goes_on_response:
  "goes_on (Response resp) \<longleftrightarrow>
     status_code resp \<noteq> 200 \<or> json_body resp = None \<or>
     (\<exists>data. json_body resp = Some data \<and> (\<forall>members. data \<noteq> JObj members)) \<or>
     (\<exists>members. json_body resp = Some (JObj members) \<and>
        (map_of members key_message = None \<or>
         (\<exists>message. map_of members key_message = Some message \<and>
            py_in key_content message = Some False)))"
  by (auto simp: goes_on_def check_response_def split: option.splits json.splits if_splits)

lemma final_result_Some:
  "final_result (Response resp) = Some data \<longleftrightarrow>
     status_code resp = 200 \<and> json_body resp = Some data \<and>
     (\<exists>members message. data = JObj members \<and> map_of members key_message = Some message \<and>
        py_in key_content message = Some True)"
  by (auto simp: final_result_def check_response_def
      split: option.splits json.splits if_splits control.splits)

lemma ends_without_result:
  "\<not> goes_on (Response resp) \<and> final_result (Response resp) = None \<longleftrightarrow>
     status_code resp = 200 \<and>
     (\<exists>members message. json_body resp = Some (JObj members) \<and>
        map_of members key_message = Some message \<and> py_in key_content message = None)"
  by (auto simp: goes_on_def final_result_def check_response_def
      split: option.splits json.splits if_splits control.splits)

lemma range_3: "[0..<nat (max_retries default_analyzer)] = [0, 1, 2]"
  by (simp add: default_analyzer_def upt_rec)

text \<open>
  C2. As stated, the claim fails: after an answer with a status other than 200 the loop
  continues with the next attempt. With the default settings and a service that always
  answers 500, one call posts three requests.
\<close>

theorem call_model_api_retries_after_500:
  "always_500 0 = Response \<lparr>status_code = 500, json_body = None\<rparr> \<and>
   call_model_api default_analyzer always_500 = ([Post 0, Post 1, Post 2], None)"
  by (simp add: call_model_api_def range_3 always_500_def check_response_def)

text \<open>
  C2, amended. One call makes attempt 0 if the bound allows any, and attempt \<open>k + 1\<close>
  exactly when it made attempt \<open>k\<close>, the bound allows one more, and attempt \<open>k\<close> let
  the loop go on. The loop goes on after a timeout, and after a response exactly when
  the status is not 200, or the body is not JSON or not an object, or the object has no
  message, or its message is an object, an array or a string that does not contain the
  content. The call ends without a further attempt after an exception other than a
  timeout, after a response whose message is \<^verbatim>\<open>null\<close>, a number or a boolean (the test
  for the content raises and the loop breaks), both without a result, and after a
  response that passes all checks, whose data is the result; a result comes from such a
  response only. The pause of the fixed delay is slept only after a timeout that is not
  the last attempt the bound allows; the other failures are retried at once.
\<close>

theorem call_model_api_retries:
  "fst (call_model_api a env) = concat (map (attempt_events a env) (attempts_made a env)) \<and>
   (\<forall>k. Post k \<in> set (fst (call_model_api a env)) \<longleftrightarrow> k \<in> set (attempts_made a env)) \<and>
   (\<forall>d. Sleep d \<in> set (fst (call_model_api a env)) \<longleftrightarrow>
        d = retry_delay a \<and>
        (\<exists>k\<in>set (attempts_made a env). env k = Timeout \<and> int k < max_retries a - 1)) \<and>
   snd (call_model_api a env) =
     (case dropWhile (\<lambda>k. goes_on (env k)) [0..<nat (max_retries a)] of
        [] \<Rightarrow> None | k # _ \<Rightarrow> final_result (env k)) \<and>
   length (attempts_made a env) \<le> nat (max_retries a) \<and>
   (0 \<in> set (attempts_made a env) \<longleftrightarrow> 0 < max_retries a) \<and>
   (\<forall>k. Suc k \<in> set (attempts_made a env) \<longleftrightarrow>
        k \<in> set (attempts_made a env) \<and> goes_on (env k) \<and> int (Suc k) < max_retries a) \<and>
   (\<forall>k d. Sleep d \<in> set (attempt_events a env k) \<longleftrightarrow>
        env k = Timeout \<and> int k < max_retries a - 1 \<and> d = retry_delay a) \<and>
   goes_on Timeout \<and> final_result Timeout = None \<and>
   \<not> goes_on OtherError \<and> final_result OtherError = None \<and>
   (\<forall>resp. goes_on (Response resp) \<longleftrightarrow>
          status_code resp \<noteq> 200 \<or> json_body resp = None \<or>
          (\<exists>data. json_body resp = Some data \<and> (\<forall>members. data \<noteq> JObj members)) \<or>
          (\<exists>members. json_body resp = Some (JObj members) \<and>
             (map_of members key_message = None \<or>
              (\<exists>message. map_of members key_message = Some message \<and>
                 py_in key_content message = Some False)))) \<and>
   (\<forall>resp data. final_result (Response resp) = Some data \<longleftrightarrow>
          status_code resp = 200 \<and> json_body resp = Some data \<and>
          (\<exists>members message. data = JObj members \<and> map_of members key_message = Some message \<and>
             py_in key_content message = Some True)) \<and>
   (\<forall>resp. \<not> goes_on (Response resp) \<and> final_result (Response resp) = None \<longleftrightarrow>
          status_code resp = 200 \<and>
          (\<exists>members message. json_body resp = Some (JObj members) \<and>
             map_of members key_message = Some message \<and> py_in key_content message = None)) \<and>
   (\<forall>key message. py_in key message = None \<longleftrightarrow>
          message = JNull \<or> (\<exists>b. message = JBool b) \<or> (\<exists>n. message = JNum n))"
proof -
  have 1: "fst (call_model_api a env) = concat (map (attempt_events a env) (attempts_made a env))"
    by (simp add: call_model_api_def call_attempts_events attempts_made_def Let_def)
  have 2: "snd (call_model_api a env) =
     (case dropWhile (\<lambda>k. goes_on (env k)) [0..<nat (max_retries a)] of
        [] \<Rightarrow> None | k # _ \<Rightarrow> final_result (env k))"
    by (simp add: call_model_api_def call_attempts_result)
  have 3: "length (attempts_made a env) \<le> nat (max_retries a)"
    by (simp add: attempts_made_def Let_def)
  have 8: "Post k \<in> set (fst (call_model_api a env)) \<longleftrightarrow> k \<in> set (attempts_made a env)" for k
    unfolding 1 by (auto simp: attempt_events_def)
  have 9: "Sleep d \<in> set (fst (call_model_api a env)) \<longleftrightarrow>
      d = retry_delay a \<and>
      (\<exists>k\<in>set (attempts_made a env). env k = Timeout \<and> int k < max_retries a - 1)" for d
    unfolding 1 by (auto simp: attempt_events_def)
  have 4: "0 \<in> set (attempts_made a env) \<longleftrightarrow> 0 < max_retries a"
    by (simp add: attempts_made_mem)
  have 5: "Suc k \<in> set (attempts_made a env) \<longleftrightarrow>
        k \<in> set (attempts_made a env) \<and> goes_on (env k) \<and> int (Suc k) < max_retries a" for k
    unfolding attempts_made_mem by (auto simp: less_Suc_eq)
  have 6: "Sleep d \<in> set (attempt_events a env k) \<longleftrightarrow>
        env k = Timeout \<and> int k < max_retries a - 1 \<and> d = retry_delay a" for k d
    by (auto simp: attempt_events_def)
  have 7: "final_result Timeout = None" "final_result OtherError = None"
    by (simp_all add: final_result_def)
  show ?thesis
    by (intro conjI allI)
      (fact 1 2 3 4 5 6 7 8 9 goes_on_failures(1,2) goes_on_response final_result_Some
         ends_without_result py_in_None)+
qed

text \<open>
  With the default settings: three timeouts give three posts with a pause after the
  first and the second; a timeout and then status 500 gives three posts with one pause;
  status 500 and then a good response gives two posts and the data; a message that is
  \<^verbatim>\<open>null\<close> gives one post and no result.
\<close>

theorem call_model_api_retries_witness:
  "call_model_api default_analyzer always_timeout =
     ([Post 0, Sleep 30, Post 1, Sleep 30, Post 2], None) \<and>
   call_model_api default_analyzer timeout_then_500 = ([Post 0, Sleep 30, Post 1, Post 2], None) \<and>
   call_model_api default_analyzer fail_then_ok = ([Post 0, Post 1], Some ok_data) \<and>
   call_model_api default_analyzer null_message = ([Post 0], None) \<and>
   attempts_made default_analyzer timeout_then_500 = [0, 1, 2] \<and>
   attempts_made default_analyzer fail_then_ok = [0, 1] \<and>
   attempts_made default_analyzer null_message = [0] \<and>
   goes_on (timeout_then_500 0) \<and> goes_on (timeout_then_500 1) \<and>
   goes_on (fail_then_ok 0) \<and> \<not> goes_on (fail_then_ok 1) \<and> \<not> goes_on (null_message 0)"
proof -
  note t = call_model_api_retries
  have g: "goes_on (always_timeout k)" "goes_on (timeout_then_500 k)" for k
    by (simp_all add: always_timeout_def timeout_then_500_def goes_on_def check_response_def)
  have h: "goes_on (fail_then_ok 0)" "\<not> goes_on (fail_then_ok 1)" "\<not> goes_on (fail_then_ok 2)"
    "\<not> goes_on (null_message k)" for k
    by (simp_all add: fail_then_ok_def null_message_def ok_data_def goes_on_def
        check_response_def)
  have h': "\<not> goes_on (fail_then_ok (Suc 0))"
    using h(2) by simp
  have r: "final_result (fail_then_ok 1) = Some ok_data" "final_result (null_message 0) = None"
    by (simp_all add: fail_then_ok_def null_message_def ok_data_def final_result_def
        check_response_def)
  have m: "attempts_made default_analyzer always_timeout = [0, 1, 2]"
    "attempts_made default_analyzer timeout_then_500 = [0, 1, 2]"
    "attempts_made default_analyzer fail_then_ok = [0, 1]"
    "attempts_made default_analyzer null_message = [0]"
    by (simp_all add: attempts_made_def range_3 g h h')
  have e: "concat (map (attempt_events default_analyzer always_timeout) [0, 1, 2]) =
      [Post 0, Sleep 30, Post 1, Sleep 30, Post 2]"
    "concat (map (attempt_events default_analyzer timeout_then_500) [0, 1, 2]) =
      [Post 0, Sleep 30, Post 1, Post 2]"
    "concat (map (attempt_events default_analyzer fail_then_ok) [0, 1]) = [Post 0, Post 1]"
    "concat (map (attempt_events default_analyzer null_message) [0]) = [Post 0]"
    by (simp_all add: attempt_events_def always_timeout_def timeout_then_500_def
        fail_then_ok_def null_message_def default_analyzer_def)
  have d: "dropWhile (\<lambda>k. goes_on (always_timeout k)) [0..<nat (max_retries default_analyzer)] = []"
    "dropWhile (\<lambda>k. goes_on (timeout_then_500 k)) [0..<nat (max_retries default_analyzer)] = []"
    "dropWhile (\<lambda>k. goes_on (fail_then_ok k)) [0..<nat (max_retries default_analyzer)] = [1, 2]"
    "dropWhile (\<lambda>k. goes_on (null_message k)) [0..<nat (max_retries default_analyzer)] = [0, 1, 2]"
    by (simp_all add: range_3 g h h')
  have "call_model_api default_analyzer env = (ev, res)"
    if "concat (map (attempt_events default_analyzer env) (attempts_made default_analyzer env)) = ev"
      and "(case dropWhile (\<lambda>k. goes_on (env k)) [0..<nat (max_retries default_analyzer)] of
             [] \<Rightarrow> None | k # _ \<Rightarrow> final_result (env k)) = res" for env ev res
    using t [of default_analyzer env, THEN conjunct1]
      t [of default_analyzer env, THEN conjunct2, THEN conjunct2, THEN conjunct2, THEN conjunct1]
      that by (simp add: prod_eq_iff)
  note c = this
  have "call_model_api default_analyzer always_timeout =
      ([Post 0, Sleep 30, Post 1, Sleep 30, Post 2], None)"
    by (rule c) (simp_all only: m e d list.case)
  moreover have "call_model_api default_analyzer timeout_then_500 =
      ([Post 0, Sleep 30, Post 1, Post 2], None)"
    by (rule c) (simp_all only: m e d list.case)
  moreover have "call_model_api default_analyzer fail_then_ok = ([Post 0, Post 1], Some ok_data)"
    by (rule c) (simp_all only: m e d list.case r)
  moreover have "call_model_api default_analyzer null_message = ([Post 0], None)"
    by (rule c) (simp_all only: m e d list.case r)
  ultimately have "call_model_api default_analyzer always_timeout =
      ([Post 0, Sleep 30, Post 1, Sleep 30, Post 2], None)"
    "call_model_api default_analyzer timeout_then_500 = ([Post 0, Sleep 30, Post 1, Post 2], None)"
    "call_model_api default_analyzer fail_then_ok = ([Post 0, Post 1], Some ok_data)"
    "call_model_api default_analyzer null_message = ([Post 0], None)"
    by blast+
  with m g h show ?thesis by (intro conjI)
qed

end
